theory Spec2Isabelle
  imports Main
begin

section \<open>Data model of main.go\<close>

text \<open>
  A Go \<open>string\<close> and a Go \<open>[]byte\<close> are both sequences of 8-bit bytes; an Isabelle
  \<open>char\<close> is one 8-bit byte, so both are modelled as \<open>string\<close>. \<open>kvMap\<close> is Go's built-in
  \<open>map[string]string\<close>: a finite partial function that keeps no order of insertion.
\<close>

type_synonym kvMap = "string \<rightharpoonup> string"

record TypeMeta =
  APIVersion :: string
  Kind :: string

record ObjectMeta =
  Name :: string
  Namespace :: string
  Labels :: kvMap
  Annotations :: kvMap

text \<open>
  Go embeds \<open>TypeMeta\<close> and \<open>ObjectMeta\<close> in both structs; the embedded structs are the
  fields \<open>typeMeta\<close> and \<open>metadata\<close> here, suffixed for the \<open>Secret\<close>.
\<close>

record SopsSecretGenerator =
  typeMeta :: TypeMeta
  metadata :: ObjectMeta
  EnvSources :: "string list"
  FileSources :: "string list"
  Behavior :: string
  DisableNameSuffixHash :: bool
  Type :: string

record Secret =
  typeMeta_s :: TypeMeta
  metadata_s :: ObjectMeta
  Data :: kvMap
  Type_s :: string

definition apiVersion :: string where
  "apiVersion = ''kustomize.meiqia.com/v1beta1''"

definition kind :: string where
  "kind = ''SopsSecretGenerator''"

subsection \<open>Errors\<close>

text \<open>
  \<open>New msg\<close> is an error made by \<open>errors.New\<close>, \<open>errors.Errorf\<close> or \<open>fmt.Errorf\<close>, or one
  that a library returns; \<open>Wrapf err msg\<close> is \<open>errors.Wrapf(err, msg)\<close> of pkg/errors, whose
  message is \<open>msg\<close>, a colon, a space and the message of the cause.
\<close>

datatype error = New string | Wrapf error string

fun Error :: "error \<Rightarrow> string" where
  "Error (New msg) = msg"
| "Error (Wrapf err msg) = msg @ '': '' @ Error err"

fun Cause :: "error \<Rightarrow> error" where
  "Cause (New msg) = New msg"
| "Cause (Wrapf err msg) = Cause err"

text \<open>The verb \<open>%d\<close> of package fmt on a non-negative \<open>int\<close>.\<close>

definition digit :: "nat \<Rightarrow> char" where
  "digit d = ''0123456789'' ! d"

fun fmt_d :: "nat \<Rightarrow> string" where
  "fmt_d n = (if n < 10 then [digit n] else fmt_d (n div 10) @ [digit (n mod 10)])"

declare fmt_d.simps [simp del]

section \<open>The library functions main.go calls\<close>

subsection \<open>Package strings and package path\<close>

definition HasSuffix :: "string \<Rightarrow> string \<Rightarrow> bool" where
  "HasSuffix s suffix \<longleftrightarrow>
     length suffix \<le> length s \<and> drop (length s - length suffix) s = suffix"

definition HasPrefix :: "string \<Rightarrow> string \<Rightarrow> bool" where
  "HasPrefix s prefix \<longleftrightarrow> length prefix \<le> length s \<and> take (length prefix) s = prefix"

definition TrimPrefix :: "string \<Rightarrow> string \<Rightarrow> string" where
  "TrimPrefix s prefix = (if HasPrefix s prefix then drop (length prefix) s else s)"

definition TrimSuffix :: "string \<Rightarrow> string \<Rightarrow> string" where
  "TrimSuffix s suffix = (if HasSuffix s suffix then take (length s - length suffix) s else s)"

text \<open>\<open>strings.Contains\<close>, to say that a message includes a text.\<close>

fun Contains :: "string \<Rightarrow> string \<Rightarrow> bool" where
  "Contains [] substr = (substr = [])"
| "Contains (c # s) substr = (HasPrefix (c # s) substr \<or> Contains s substr)"

text \<open>
  \<open>genSplit\<close> of package strings for a separator of one byte: at most \<open>n\<close> pieces, the
  last one the unsplit rest. \<open>SplitN\<close> is called with a positive \<open>n\<close>; \<open>Split\<close> asks
  for one piece more than the separator occurs.
\<close>

fun genSplit :: "string \<Rightarrow> char \<Rightarrow> nat \<Rightarrow> string list" where
  "genSplit s sep 0 = []"
| "genSplit s sep (Suc n) =
     (if n = 0 \<or> sep \<notin> set s then [s]
      else takeWhile (\<lambda>c. c \<noteq> sep) s # genSplit (tl (dropWhile (\<lambda>c. c \<noteq> sep) s)) sep n)"

definition SplitN :: "string \<Rightarrow> char \<Rightarrow> nat \<Rightarrow> string list" where
  "SplitN s sep n = genSplit s sep n"

definition Split :: "string \<Rightarrow> char \<Rightarrow> string list" where
  "Split s sep = genSplit s sep (count_list s sep + 1)"

text \<open>
  \<open>path.Base\<close>: the empty path gives a dot; trailing slashes are stripped; the result is
  what follows the last slash; a path of slashes only gives one slash.
\<close>

fun stripTrailingSlashes :: "string \<Rightarrow> string" where
  "stripTrailingSlashes p =
     (if p \<noteq> [] \<and> last p = CHR ''/'' then stripTrailingSlashes (butlast p) else p)"

declare stripTrailingSlashes.simps [simp del]

definition lastElement :: "string \<Rightarrow> string" where
  "lastElement p = rev (takeWhile (\<lambda>c. c \<noteq> CHR ''/'') (rev p))"

definition Base :: "string \<Rightarrow> string" where
  "Base p =
     (if p = [] then ''.''
      else let q = lastElement (stripTrailingSlashes p) in
        if q = [] then ''/'' else q)"

subsection \<open>Package encoding/base64: \<open>StdEncoding\<close>\<close>

definition encodeStd :: string where
  "encodeStd = ''ABCDEFGHIJKLMNOPQRSTUVWXYZabcdefghijklmnopqrstuvwxyz0123456789+/''"

definition StdPadding :: char where
  "StdPadding = CHR ''=''"

definition byte :: "char \<Rightarrow> nat" where
  "byte c = of_char c"

text \<open>
  \<open>EncodeToString\<close>: three bytes make a 24-bit value whose four 6-bit groups index the
  alphabet; a rest of one or two bytes is padded with \<open>=\<close> to four characters.
\<close>

definition encode6 :: "nat \<Rightarrow> char" where
  "encode6 v = encodeStd ! (v mod 64)"

fun EncodeToString :: "string \<Rightarrow> string" where
  "EncodeToString [] = []"
| "EncodeToString [a] =
     (let val = byte a * 65536 in
      [encode6 (val div 262144), encode6 (val div 4096), StdPadding, StdPadding])"
| "EncodeToString [a, b] =
     (let val = byte a * 65536 + byte b * 256 in
      [encode6 (val div 262144), encode6 (val div 4096), encode6 (val div 64), StdPadding])"
| "EncodeToString (a # b # c # src) =
     (let val = byte a * 65536 + byte b * 256 + byte c in
      [encode6 (val div 262144), encode6 (val div 4096), encode6 (val div 64), encode6 val]
        @ EncodeToString src)"

text \<open>
  The decoder of the same encoding (RFC 4648, standard alphabet, padding required), used to
  state the round trip; the program itself only encodes. \<open>decodeMap\<close> is the inverse of the
  alphabet, as the library builds it.
\<close>

fun indexByte :: "string \<Rightarrow> char \<Rightarrow> nat option" where
  "indexByte [] c = None"
| "indexByte (x # xs) c = (if x = c then Some 0 else map_option Suc (indexByte xs c))"

definition decodeMap :: "char \<Rightarrow> nat option" where
  "decodeMap c = indexByte encodeStd c"

definition decodeQuantum :: "char list \<Rightarrow> nat \<Rightarrow> string option" where
  "decodeQuantum cs n =
     (case those (map decodeMap cs) of
        None \<Rightarrow> None
      | Some ds \<Rightarrow>
          (let val = foldl (\<lambda>acc d. acc * 64 + d) 0 (ds @ replicate (4 - length ds) 0) in
           Some (take n [char_of (val div 65536), char_of (val div 256), char_of val])))"

fun DecodeString :: "string \<Rightarrow> string option" where
  "DecodeString [] = Some []"
| "DecodeString [a, b, c, d] =
     (if c = StdPadding \<and> d = StdPadding then decodeQuantum [a, b] 1
      else if d = StdPadding then decodeQuantum [a, b, c] 2
      else decodeQuantum [a, b, c, d] 3)"
| "DecodeString (a # b # c # d # s) =
     (case decodeQuantum [a, b, c, d] 3 of
        None \<Rightarrow> None
      | Some bs \<Rightarrow> map_option (\<lambda>rest. bs @ rest) (DecodeString s))"
| "DecodeString _ = None"

subsection \<open>Package unicode/utf8 and \<open>unicode.IsSpace\<close>\<close>

definition RuneError :: nat where
  "RuneError = 65533"

text \<open>
  The table \<open>first\<close> with \<open>acceptRanges\<close>: for a leading byte of a multi-byte sequence,
  the length of the sequence and the range allowed for its second byte; \<open>None\<close> for a
  byte that cannot lead (the entries \<open>xx\<close>). ASCII bytes are handled before the table is read.
\<close>

definition first :: "nat \<Rightarrow> (nat \<times> nat \<times> nat) option" where
  "first p0 =
     (if p0 < 194 then None
      else if p0 < 224 then Some (2, 128, 191)
      else if p0 = 224 then Some (3, 160, 191)
      else if p0 = 237 then Some (3, 128, 159)
      else if p0 < 240 then Some (3, 128, 191)
      else if p0 = 240 then Some (4, 144, 191)
      else if p0 < 244 then Some (4, 128, 191)
      else if p0 = 244 then Some (4, 128, 143)
      else None)"

definition cont :: "nat \<Rightarrow> bool" where
  "cont c \<longleftrightarrow> 128 \<le> c \<and> c \<le> 191"

text \<open>\<open>utf8.DecodeRune\<close>: the rune at the front of \<open>p\<close> and its width in bytes.\<close>

definition DecodeRune :: "string \<Rightarrow> nat \<times> nat" where
  "DecodeRune p =
     (case p of
        [] \<Rightarrow> (RuneError, 0)
      | p0 # ps \<Rightarrow>
          if byte p0 < 128 then (byte p0, 1)
          else (case first (byte p0) of
            None \<Rightarrow> (RuneError, 1)
          | Some (sz, lo, hi) \<Rightarrow>
              if length p < sz then (RuneError, 1)
              else let b1 = byte (p ! 1) in
                if b1 < lo \<or> hi < b1 then (RuneError, 1)
                else if sz \<le> 2 then (byte p0 mod 32 * 64 + b1 mod 64, 2)
                else let b2 = byte (p ! 2) in
                  if \<not> cont b2 then (RuneError, 1)
                  else if sz \<le> 3 then (byte p0 mod 16 * 4096 + b1 mod 64 * 64 + b2 mod 64, 3)
                  else let b3 = byte (p ! 3) in
                    if \<not> cont b3 then (RuneError, 1)
                    else (byte p0 mod 8 * 262144 + b1 mod 64 * 4096 + b2 mod 64 * 64
                            + b3 mod 64, 4)))"

text \<open>\<open>utf8.Valid\<close>: every byte is ASCII or part of a well-formed sequence.\<close>

fun Valid :: "string \<Rightarrow> bool" where
  "Valid [] = True"
| "Valid (pi # ps) =
     (if byte pi < 128 then Valid ps
      else (case first (byte pi) of
        None \<Rightarrow> False
      | Some (sz, lo, hi) \<Rightarrow>
          if Suc (length ps) < sz then False
          else if byte (ps ! 0) < lo \<or> hi < byte (ps ! 0) then False
          else if sz = 2 then Valid (drop 1 ps)
          else if \<not> cont (byte (ps ! 1)) then False
          else if sz = 3 then Valid (drop 2 ps)
          else if \<not> cont (byte (ps ! 2)) then False
          else Valid (drop 3 ps)))"

text \<open>\<open>unicode.IsSpace\<close>: the Latin-1 cases and the rest of the table \<open>White_Space\<close>.\<close>

definition IsSpace :: "nat \<Rightarrow> bool" where
  "IsSpace r \<longleftrightarrow>
     (if r \<le> 255 then (9 \<le> r \<and> r \<le> 13) \<or> r = 32 \<or> r = 133 \<or> r = 160
      else r = 5760 \<or> (8192 \<le> r \<and> r \<le> 8202) \<or> r = 8232 \<or> r = 8233 \<or> r = 8239
           \<or> r = 8287 \<or> r = 12288)"

text \<open>
  \<open>bytes.TrimLeftFunc\<close>: drops runes from the front while \<open>f\<close> holds of them; a byte
  below \<open>utf8.RuneSelf\<close> is its own rune.
\<close>

fun TrimLeftFunc :: "string \<Rightarrow> (nat \<Rightarrow> bool) \<Rightarrow> string" where
  "TrimLeftFunc [] f = []"
| "TrimLeftFunc (c # cs) f =
     (let (r, wid) = (if byte c \<ge> 128 then DecodeRune (c # cs) else (byte c, 1)) in
      if f r then TrimLeftFunc (drop (wid - 1) cs) f else c # cs)"

subsection \<open>\<open>utfbom.SkipOnly\<close> and \<open>bufio.Scanner\<close>\<close>

text \<open>
  \<open>utfbom.SkipOnly\<close> looks at the first four bytes and drops a byte order mark of UTF-32
  (big or little endian), else of UTF-8, else of UTF-16 (big or little endian).
\<close>

definition SkipOnly :: "string \<Rightarrow> string" where
  "SkipOnly content =
     (let b = map byte (take 4 content) in
      if b = [0, 0, 254, 255] \<or> b = [255, 254, 0, 0] then drop 4 content
      else if take 3 b = [239, 187, 191] then drop 3 content
      else if take 2 b = [254, 255] \<or> take 2 b = [255, 254] then drop 2 content
      else content)"

text \<open>
  A \<open>bufio.Scanner\<close> with the default split function \<open>ScanLines\<close> and the default buffer:
  a token is the text up to a newline, without the newline and without one carriage
  return before it; text left at the end of input is a last token; a line that fills the
  buffer of \<open>MaxScanTokenSize\<close> bytes before its newline is read stops the scan with
  \<open>ErrTooLong\<close>. \<open>scan\<close> returns the tokens that \<open>Scan\<close> delivers, in order, and what
  \<open>Err\<close> returns after the last of them.
\<close>

definition MaxScanTokenSize :: nat where
  "MaxScanTokenSize = 64 * 1024"

definition ErrTooLong :: error where
  "ErrTooLong = New ''bufio.Scanner: token too long''"

definition dropCR :: "string \<Rightarrow> string" where
  "dropCR d = (if d \<noteq> [] \<and> last d = CHR 0x0D then butlast d else d)"

fun scan :: "string \<Rightarrow> string \<Rightarrow> string list \<times> error option" where
  "scan [] held = (if held = [] then [] else [dropCR (rev held)], None)"
| "scan (c # cs) held =
     (if c = CHR 0x0A then
        (let (tokens, err) = scan cs [] in (dropCR (rev held) # tokens, err))
      else if Suc (length held) \<ge> MaxScanTokenSize then ([], Some ErrTooLong)
      else scan cs (c # held))"

subsection \<open>The format predicates of sops\<close>

definition IsYAMLFile :: "string \<Rightarrow> bool" where
  "IsYAMLFile path \<longleftrightarrow> HasSuffix path ''.yaml'' \<or> HasSuffix path ''.yml''"

definition IsJSONFile :: "string \<Rightarrow> bool" where
  "IsJSONFile path \<longleftrightarrow> HasSuffix path ''.json''"

definition IsEnvFile :: "string \<Rightarrow> bool" where
  "IsEnvFile path \<longleftrightarrow> HasSuffix path ''.env''"

subsection \<open>The world outside the program\<close>

text \<open>
  What main.go cannot compute itself is a parameter of the model: the file system
  (\<open>ioutil.ReadFile\<close>), the decryption of sops (\<open>sopsdecrypt.Data\<close>, given the content and
  the format), and the YAML and JSON codecs at the three types they are used at.
  Every one of them returns an error or a value.
\<close>

record world =
  files :: "string \<Rightarrow> error + string"
  sopsdecrypt_Data :: "string \<Rightarrow> string \<Rightarrow> error + string"
  yaml_Unmarshal_kvMap :: "string \<Rightarrow> error + kvMap"
  json_Unmarshal_kvMap :: "string \<Rightarrow> error + kvMap"
  yaml_Unmarshal_input :: "string \<Rightarrow> error + SopsSecretGenerator"
  yaml_Marshal :: "Secret \<Rightarrow> error + string"

text \<open>
  Reading a file is the one effect on the world. The paths read so far, oldest first, are
  threaded through every function that can read: the log is state, passed in and returned.
\<close>

type_synonym log = "string list"

definition ReadFile :: "world \<Rightarrow> string \<Rightarrow> log \<Rightarrow> (error + string) \<times> log" where
  "ReadFile W filename lg = (files W filename, lg @ [filename])"

section \<open>The functions of main.go\<close>

text \<open>
  A function that returns only an \<open>error\<close> and writes into the map it is given returns
  here the error (\<open>None\<close> for \<open>nil\<close>) and the map as it is left, also when it fails.
  A function that returns a value and an error returns a sum: each of them returns
  the zero value with every error.
\<close>

definition formatForPath :: "string \<Rightarrow> string" where
  "formatForPath path =
     (if IsYAMLFile path then ''yaml''
      else if IsJSONFile path then ''json''
      else if IsEnvFile path then ''dotenv''
      else ''binary'')"

definition parseFileName :: "string \<Rightarrow> error + string \<times> string" where
  "parseFileName source =
     (let components = Split source CHR ''='' in
      if length components = 1 then Inr (Base source, source)
      else if length components = 2 then
        (let key = components ! 0; fn = components ! 1 in
         if key = [] then
           Inl (New (''key name for file path '' @ TrimPrefix source ''='' @ '' missing''))
         else if fn = [] then
           Inl (New (''file path for key name '' @ TrimSuffix source ''='' @ '' missing''))
         else Inr (key, fn))
      else Inl (New (''key names or file paths cannot contain '' @ [CHR 0x27, CHR ''='', CHR 0x27])))"

definition parseFileSource ::
  "world \<Rightarrow> string \<Rightarrow> kvMap \<Rightarrow> log \<Rightarrow> error option \<times> kvMap \<times> log" where
  "parseFileSource W source data lg =
     (case parseFileName source of
        Inl err \<Rightarrow> (Some err, data, lg)
      | Inr (key, fn) \<Rightarrow>
          (case ReadFile W fn lg of
             (Inl err, lg') \<Rightarrow> (Some err, data, lg')
           | (Inr content, lg') \<Rightarrow>
               (case sopsdecrypt_Data W content (formatForPath source) of
                  Inl err \<Rightarrow> (Some err, data, lg')
                | Inr decrypted \<Rightarrow>
                    (None, data(key \<mapsto> EncodeToString decrypted), lg'))))"

fun parseFileSources ::
  "world \<Rightarrow> string list \<Rightarrow> kvMap \<Rightarrow> log \<Rightarrow> error option \<times> kvMap \<times> log" where
  "parseFileSources W [] data lg = (None, data, lg)"
| "parseFileSources W (source # sources) data lg =
     (case parseFileSource W source data lg of
        (Some err, data', lg') \<Rightarrow> (Some (Wrapf err (''file source '' @ source)), data', lg')
      | (None, data', lg') \<Rightarrow> parseFileSources W sources data' lg')"

definition parseDotEnvLine :: "string \<Rightarrow> kvMap \<Rightarrow> error option \<times> kvMap" where
  "parseDotEnvLine line0 data =
     (if \<not> Valid line0 then (Some (New ''invalid utf8 sequence''), data)
      else let line = TrimLeftFunc line0 IsSpace in
        if length line = 0 \<or> line ! 0 = CHR ''#'' then (None, data)
        else let pair = SplitN line CHR ''='' 2 in
          if length pair \<noteq> 2 then (Some (New (''requires value: '' @ line)), data)
          else (None, data(pair ! 0 \<mapsto> EncodeToString (pair ! 1))))"

text \<open>
  The loop of \<open>parseDotEnvContent\<close> over the tokens the scanner delivers; after the last
  token the function returns \<open>scanner.Err()\<close>.
\<close>

fun parseDotEnvLines :: "string list \<Rightarrow> nat \<Rightarrow> kvMap \<Rightarrow> error option \<times> kvMap" where
  "parseDotEnvLines [] lineNum data = (None, data)"
| "parseDotEnvLines (line # lines) lineNum data =
     (case parseDotEnvLine line data of
        (Some err, data') \<Rightarrow> (Some (Wrapf err (''line '' @ fmt_d lineNum)), data')
      | (None, data') \<Rightarrow> parseDotEnvLines lines (lineNum + 1) data')"

definition parseDotEnvContent :: "string \<Rightarrow> kvMap \<Rightarrow> error option \<times> kvMap" where
  "parseDotEnvContent content data =
     (let (tokens, scanErr) = scan (SkipOnly content) [] in
      case parseDotEnvLines tokens 0 data of
        (Some err, data') \<Rightarrow> (Some err, data')
      | (None, data') \<Rightarrow> (scanErr, data'))"

text \<open>
  The loop over the decoded map \<open>d\<close> stores the encoding of every value of \<open>d\<close> under its
  key; the keys of a Go map are distinct, so the order of the loop does not show.
\<close>

definition storeEncoded :: "kvMap \<Rightarrow> kvMap \<Rightarrow> kvMap" where
  "storeEncoded d data = data ++ (\<lambda>k. map_option EncodeToString (d k))"

definition parseYAMLContent :: "world \<Rightarrow> string \<Rightarrow> kvMap \<Rightarrow> error option \<times> kvMap" where
  "parseYAMLContent W content data =
     (case yaml_Unmarshal_kvMap W content of
        Inl err \<Rightarrow> (Some err, data)
      | Inr d \<Rightarrow> (None, storeEncoded d data))"

definition parseJSONContent :: "world \<Rightarrow> string \<Rightarrow> kvMap \<Rightarrow> error option \<times> kvMap" where
  "parseJSONContent W content data =
     (case json_Unmarshal_kvMap W content of
        Inl err \<Rightarrow> (Some err, data)
      | Inr d \<Rightarrow> (None, storeEncoded d data))"

definition parseEnvSource ::
  "world \<Rightarrow> string \<Rightarrow> kvMap \<Rightarrow> log \<Rightarrow> error option \<times> kvMap \<times> log" where
  "parseEnvSource W source data lg =
     (case ReadFile W source lg of
        (Inl err, lg') \<Rightarrow> (Some err, data, lg')
      | (Inr content, lg') \<Rightarrow>
          (let format = formatForPath source in
           case sopsdecrypt_Data W content format of
             Inl err \<Rightarrow> (Some err, data, lg')
           | Inr decrypted \<Rightarrow>
               (let (err, data') =
                  (if format = ''dotenv'' then parseDotEnvContent decrypted data
                   else if format = ''yaml'' then parseYAMLContent W decrypted data
                   else if format = ''json'' then parseJSONContent W decrypted data
                   else (Some (New ''unknown file format, use dotenv, yaml or json''), data))
                in (err, data', lg'))))"

fun parseEnvSources ::
  "world \<Rightarrow> string list \<Rightarrow> kvMap \<Rightarrow> log \<Rightarrow> error option \<times> kvMap \<times> log" where
  "parseEnvSources W [] data lg = (None, data, lg)"
| "parseEnvSources W (source # sources) data lg =
     (case parseEnvSource W source data lg of
        (Some err, data', lg') \<Rightarrow> (Some (Wrapf err (''env source '' @ source)), data', lg')
      | (None, data', lg') \<Rightarrow> parseEnvSources W sources data' lg')"

definition parseInput :: "world \<Rightarrow> SopsSecretGenerator \<Rightarrow> log \<Rightarrow> (error + kvMap) \<times> log" where
  "parseInput W input lg =
     (case parseEnvSources W (EnvSources input) Map.empty lg of
        (Some err, data, lg') \<Rightarrow> (Inl err, lg')
      | (None, data, lg') \<Rightarrow>
          (case parseFileSources W (FileSources input) data lg' of
             (Some err, data', lg'') \<Rightarrow> (Inl err, lg'')
           | (None, data', lg'') \<Rightarrow> (Inr data', lg'')))"

definition needsHashKey :: string where
  "needsHashKey = ''kustomize.config.k8s.io/needs-hash''"

definition behaviorKey :: string where
  "behaviorKey = ''kustomize.config.k8s.io/behavior''"

definition generateSecret :: "world \<Rightarrow> SopsSecretGenerator \<Rightarrow> log \<Rightarrow> (error + Secret) \<times> log" where
  "generateSecret W sopsSecret lg =
     (case parseInput W sopsSecret lg of
        (Inl err, lg') \<Rightarrow> (Inl err, lg')
      | (Inr data, lg') \<Rightarrow>
          (let annotations = Map.empty ++ Annotations (metadata sopsSecret);
               annotations = (if \<not> DisableNameSuffixHash sopsSecret
                              then annotations(needsHashKey \<mapsto> ''true'') else annotations);
               annotations = (if Behavior sopsSecret \<noteq> []
                              then annotations(behaviorKey \<mapsto> Behavior sopsSecret)
                              else annotations)
           in (Inr \<lparr> typeMeta_s = \<lparr> APIVersion = ''v1'', Kind = ''Secret'' \<rparr>,
                      metadata_s = \<lparr> Name = Name (metadata sopsSecret),
                                     Namespace = Namespace (metadata sopsSecret),
                                     Labels = Labels (metadata sopsSecret),
                                     Annotations = annotations \<rparr>,
                      Data = data,
                      Type_s = Type sopsSecret \<rparr>, lg')))"

definition readInput :: "world \<Rightarrow> string \<Rightarrow> log \<Rightarrow> (error + SopsSecretGenerator) \<times> log" where
  "readInput W fn lg =
     (case ReadFile W fn lg of
        (Inl err, lg') \<Rightarrow> (Inl err, lg')
      | (Inr content, lg') \<Rightarrow>
          (case yaml_Unmarshal_input W content of
             Inl err \<Rightarrow> (Inl err, lg')
           | Inr input \<Rightarrow>
               if APIVersion (typeMeta input) \<noteq> apiVersion \<or> Kind (typeMeta input) \<noteq> kind then
                 (Inl (New (''input must be apiVersion '' @ apiVersion @ '', kind '' @ kind)), lg')
               else if Name (metadata input) = [] then
                 (Inl (New ''input must contain metadata.name value''), lg')
               else (Inr input, lg')))"

definition processSopsSecretGenerator :: "world \<Rightarrow> string \<Rightarrow> log \<Rightarrow> (error + string) \<times> log" where
  "processSopsSecretGenerator W fn lg =
     (case readInput W fn lg of
        (Inl err, lg') \<Rightarrow> (Inl err, lg')
      | (Inr input, lg') \<Rightarrow>
          (case generateSecret W input lg' of
             (Inl err, lg'') \<Rightarrow> (Inl err, lg'')
           | (Inr secret, lg'') \<Rightarrow>
               (case yaml_Marshal W secret of
                  Inl err \<Rightarrow> (Inl err, lg'')
                | Inr output \<Rightarrow> (Inr output, lg''))))"

section \<open>Sources in declaration order\<close>

text \<open>
  The words of the specification about sources: a declared source is an entry of
  \<open>envSources\<close> or of \<open>fileSources\<close>; the declaration order lists the entries of
  \<open>envSources\<close> first and then those of \<open>fileSources\<close>, each in listed order; what a
  source yields is what resolving it on its own, into an empty map, stores.
\<close>

datatype declared = FromEnv string | FromFile string

definition declarationOrder :: "SopsSecretGenerator \<Rightarrow> declared list" where
  "declarationOrder input = map FromEnv (EnvSources input) @ map FromFile (FileSources input)"

fun resolveAlone :: "world \<Rightarrow> declared \<Rightarrow> error option \<times> kvMap \<times> log" where
  "resolveAlone W (FromEnv source) = parseEnvSource W source Map.empty []"
| "resolveAlone W (FromFile source) = parseFileSource W source Map.empty []"

definition failure :: "world \<Rightarrow> declared \<Rightarrow> error option" where
  "failure W d = fst (resolveAlone W d)"

definition yield :: "world \<Rightarrow> declared \<Rightarrow> kvMap" where
  "yield W d = fst (snd (resolveAlone W d))"

definition reads :: "world \<Rightarrow> declared \<Rightarrow> log" where
  "reads W d = snd (snd (resolveAlone W d))"

section \<open>Example inputs\<close>

text \<open>
  Decrypted documents: a dotenv document with a byte order mark, a pair, an empty line
  ended by a carriage return and a newline, a comment, a line with no value and one more
  pair; a dotenv document that stores under \<open>A\<close> twice, with an indented pair and a comment
  between; the dotenv document of the end-to-end example; a dotenv document whose second line
  has no value; a dotenv document of one line of 65536 bytes; a JSON document.
\<close>

definition dotenvDoc :: string where
  "dotenvDoc = [CHR 0xEF, CHR 0xBB, CHR 0xBF] @ ''A=1'' @ [CHR 0x0A] @ [CHR 0x0D, CHR 0x0A]
                 @ '' # c'' @ [CHR 0x0A] @ ''  B'' @ [CHR 0x0A] @ ''C=3''"

definition threePairsDoc :: string where
  "threePairsDoc = ''A=1'' @ [CHR 0x0A] @ ''  B=2'' @ [CHR 0x0A] @ ''#x'' @ [CHR 0x0A] @ ''A=3''"

definition aEnvDoc :: string where
  "aEnvDoc = ''FOO=bar'' @ [CHR 0x0A] @ ''#comment'' @ [CHR 0x0A]"

definition brokenEnvDoc :: string where
  "brokenEnvDoc = ''OK=1'' @ [CHR 0x0A] @ ''novalue'' @ [CHR 0x0A]"

definition longLineDoc :: string where
  "longLineDoc = replicate 65536 (CHR ''A'')"

definition jsonDoc :: string where
  "jsonDoc = ''{'' @ [CHR 0x22] @ ''FOO'' @ [CHR 0x22] @ '':'' @ [CHR 0x22] @ ''qux'' @ [CHR 0x22] @ ''}''"

text \<open>
  Generator documents: the one of the end-to-end example (a dotenv source and a binary
  file), one of the wrong kind and one without a name, which list the same sources.
\<close>

definition exampleGenerator :: SopsSecretGenerator where
  "exampleGenerator =
     \<lparr> typeMeta = \<lparr> APIVersion = apiVersion, Kind = kind \<rparr>,
       metadata = \<lparr> Name = ''example'', Namespace = [], Labels = Map.empty,
                    Annotations = Map.empty \<rparr>,
       EnvSources = [''a.env''], FileSources = [''b.bin''],
       Behavior = [], DisableNameSuffixHash = False, Type = [] \<rparr>"

definition wrongKindGenerator :: SopsSecretGenerator where
  "wrongKindGenerator = exampleGenerator \<lparr> typeMeta := \<lparr> APIVersion = ''v1'', Kind = ''Secret'' \<rparr> \<rparr>"

definition namelessGenerator :: SopsSecretGenerator where
  "namelessGenerator =
     exampleGenerator \<lparr> metadata := \<lparr> Name = [], Namespace = [], Labels = Map.empty,
                                     Annotations = Map.empty \<rparr> \<rparr>"

text \<open>
  Generators without sources: two whose explicit annotations use the keys that
  \<open>generateSecret\<close> writes itself, and one with the hash suffix disabled.
\<close>

definition pinnedHashGenerator :: SopsSecretGenerator where
  "pinnedHashGenerator =
     \<lparr> typeMeta = \<lparr> APIVersion = apiVersion, Kind = kind \<rparr>,
       metadata = \<lparr> Name = ''pinned'', Namespace = [], Labels = Map.empty,
                    Annotations = [needsHashKey \<mapsto> ''true''] \<rparr>,
       EnvSources = [], FileSources = [],
       Behavior = [], DisableNameSuffixHash = True, Type = [] \<rparr>"

definition explicitBehaviorGenerator :: SopsSecretGenerator where
  "explicitBehaviorGenerator =
     \<lparr> typeMeta = \<lparr> APIVersion = apiVersion, Kind = kind \<rparr>,
       metadata = \<lparr> Name = ''explicit'', Namespace = [], Labels = Map.empty,
                    Annotations = [behaviorKey \<mapsto> ''merge'', ''team'' \<mapsto> ''core''] \<rparr>,
       EnvSources = [], FileSources = [],
       Behavior = ''replace'', DisableNameSuffixHash = False, Type = [] \<rparr>"

definition noHashGenerator :: SopsSecretGenerator where
  "noHashGenerator =
     \<lparr> typeMeta = \<lparr> APIVersion = apiVersion, Kind = kind \<rparr>,
       metadata = \<lparr> Name = ''nohash'', Namespace = [], Labels = Map.empty,
                    Annotations = Map.empty \<rparr>,
       EnvSources = [], FileSources = [],
       Behavior = [], DisableNameSuffixHash = True, Type = [] \<rparr>"

text \<open>
  A generator whose three sources all yield the key \<open>FOO\<close>: a dotenv document, a YAML
  document and a file stored under an explicit key.
\<close>

definition collidingGenerator :: SopsSecretGenerator where
  "collidingGenerator =
     exampleGenerator \<lparr> EnvSources := [''a.env'', ''c.yaml''], FileSources := [''FOO=b.bin''] \<rparr>"

text \<open>
  Generators with a source that fails: a dotenv document with a line without a value
  between two good sources, a file source with two \<open>=\<close> between two others, and the
  dotenv document of one long line.
\<close>

definition failingEnvGenerator :: SopsSecretGenerator where
  "failingEnvGenerator =
     exampleGenerator \<lparr> EnvSources := [''a.env'', ''broken.env'', ''c.yaml''] \<rparr>"

definition failingFileGenerator :: SopsSecretGenerator where
  "failingFileGenerator =
     exampleGenerator \<lparr> FileSources := [''b.bin'', ''a=b=c'', ''FOO=b.bin''] \<rparr>"

definition longLineGenerator :: SopsSecretGenerator where
  "longLineGenerator = exampleGenerator \<lparr> EnvSources := [''big.env''] \<rparr>"

text \<open>Two generators that list the same two file sources in opposite orders.\<close>

definition xyGenerator :: SopsSecretGenerator where
  "xyGenerator = exampleGenerator \<lparr> EnvSources := [], FileSources := [''x=b.bin'', ''y=c.yaml''] \<rparr>"

definition yxGenerator :: SopsSecretGenerator where
  "yxGenerator = exampleGenerator \<lparr> EnvSources := [], FileSources := [''y=c.yaml'', ''x=b.bin''] \<rparr>"

text \<open>
  A world with a few files. Decryption gives back the content, except for the one file
  that is not encrypted; the codecs know the documents of this world only.
\<close>

definition exampleWorld :: world where
  "exampleWorld =
     \<lparr> files = (\<lambda>path.
         if path = ''a.env'' then Inr aEnvDoc
         else if path = ''broken.env'' then Inr brokenEnvDoc
         else if path = ''b.bin'' then Inr [CHR 0x01, CHR 0x02]
         else if path = ''c.yaml'' then Inr ''FOO: baz''
         else if path = ''d.json'' then Inr jsonDoc
         else if path = ''plain.txt'' then Inr ''not encrypted''
         else if path = ''big.env'' then Inr longLineDoc
         else if path = ''gen.yaml'' then Inr ''example''
         else if path = ''wrongkind.yaml'' then Inr ''wrong kind''
         else if path = ''nameless.yaml'' then Inr ''nameless''
         else if path = ''failing.yaml'' then Inr ''failing env''
         else if path = ''xy.yaml'' then Inr ''x then y''
         else if path = ''yx.yaml'' then Inr ''y then x''
         else Inl (New (''open '' @ path @ '': no such file or directory''))),
       sopsdecrypt_Data = (\<lambda>content format.
         if content = ''not encrypted'' then Inl (New ''sops metadata not found'')
         else Inr content),
       yaml_Unmarshal_kvMap = (\<lambda>content.
         if content = ''FOO: baz'' then Inr [''FOO'' \<mapsto> ''baz'']
         else Inl (New ''yaml: unmarshal errors'')),
       json_Unmarshal_kvMap = (\<lambda>content.
         if content = jsonDoc then Inr [''FOO'' \<mapsto> ''qux'']
         else Inl (New ''unexpected end of JSON input'')),
       yaml_Unmarshal_input = (\<lambda>content.
         if content = ''example'' then Inr exampleGenerator
         else if content = ''wrong kind'' then Inr wrongKindGenerator
         else if content = ''nameless'' then Inr namelessGenerator
         else if content = ''failing env'' then Inr failingEnvGenerator
         else if content = ''x then y'' then Inr xyGenerator
         else if content = ''y then x'' then Inr yxGenerator
         else Inl (New ''yaml: unmarshal errors'')),
       yaml_Marshal = (\<lambda>secret. Inr (''kind: Secret, name: '' @ Name (metadata_s secret))) \<rparr>"

section \<open>Evaluation and the dotenv parser\<close>

text \<open>The definitions that the evaluation of a concrete input unfolds.\<close>

lemmas eval_defs = byte_def IsSpace_def first_def cont_def DecodeRune_def
  encode6_def encodeStd_def StdPadding_def Let_def
  SkipOnly_def MaxScanTokenSize_def dropCR_def HasPrefix_def HasSuffix_def

lemmas world_defs = exampleWorld_def exampleGenerator_def wrongKindGenerator_def
  namelessGenerator_def apiVersion_def kind_def

lemma split_at_first:
  assumes "sep \<notin> set l"
  shows "takeWhile (\<lambda>c. c \<noteq> sep) (l @ sep # r) = l"
    and "dropWhile (\<lambda>c. c \<noteq> sep) (l @ sep # r) = sep # r"
  using assms by (induction l) auto

lemma SplitN_two:
  "SplitN t sep 2 =
     (if sep \<in> set t then [takeWhile (\<lambda>c. c \<noteq> sep) t, tl (dropWhile (\<lambda>c. c \<noteq> sep) t)]
      else [t])"
  by (simp add: SplitN_def numeral_2_eq_2)

lemma parseDotEnvLine_unfold:
  "parseDotEnvLine line data =
     (if \<not> Valid line then (Some (New ''invalid utf8 sequence''), data)
      else let t = TrimLeftFunc line IsSpace in
        if t = [] \<or> hd t = CHR ''#'' then (None, data)
        else if CHR ''='' \<notin> set t then (Some (New (''requires value: '' @ t)), data)
        else (None, data(takeWhile (\<lambda>c. c \<noteq> CHR ''='') t \<mapsto>
                           EncodeToString (tl (dropWhile (\<lambda>c. c \<noteq> CHR ''='') t)))))"
proof (cases "TrimLeftFunc line IsSpace")
  case Nil
  then show ?thesis by (simp add: parseDotEnvLine_def)
next
  case (Cons c cs)
  then show ?thesis
    by (simp add: parseDotEnvLine_def Let_def SplitN_two del: set_ConsD)
qed

lemma parseDotEnvLine_invalid:
  "\<not> Valid line \<Longrightarrow> parseDotEnvLine line data = (Some (New ''invalid utf8 sequence''), data)"
  by (simp add: parseDotEnvLine_unfold)

lemma parseDotEnvLine_skip:
  assumes "Valid line" and "TrimLeftFunc line IsSpace = t" and "t = [] \<or> hd t = CHR ''#''"
  shows "parseDotEnvLine line data = (None, data)"
  using assms by (auto simp: parseDotEnvLine_unfold)

lemma parseDotEnvLine_novalue:
  assumes "Valid line" and "TrimLeftFunc line IsSpace = t" and "t \<noteq> []"
    and "hd t \<noteq> CHR ''#''" and "CHR ''='' \<notin> set t"
  shows "parseDotEnvLine line data = (Some (New (''requires value: '' @ t)), data)"
  using assms by (simp add: parseDotEnvLine_unfold)

lemma parseDotEnvLine_pair:
  assumes "Valid line" and "TrimLeftFunc line IsSpace = t" and "t \<noteq> []"
    and "hd t \<noteq> CHR ''#''" and "CHR ''='' \<in> set t"
  shows "parseDotEnvLine line data =
           (None, data(takeWhile (\<lambda>c. c \<noteq> CHR ''='') t \<mapsto>
                         EncodeToString (tl (dropWhile (\<lambda>c. c \<noteq> CHR ''='') t))))"
  using assms by (simp add: parseDotEnvLine_unfold)

lemma parseDotEnvLine_error_indep:
  "fst (parseDotEnvLine line data) = fst (parseDotEnvLine line data')"
  by (simp add: parseDotEnvLine_def Let_def)

lemma parseDotEnvLines_fail:
  assumes "i < length tokens"
    and "\<forall>j<i. fst (parseDotEnvLine (tokens ! j) Map.empty) = None"
    and "fst (parseDotEnvLine (tokens ! i) Map.empty) = Some err"
  shows "fst (parseDotEnvLines tokens n data) = Some (Wrapf err (''line '' @ fmt_d (n + i)))"
  using assms
proof (induction tokens arbitrary: i n data)
  case Nil
  then show ?case by simp
next
  case (Cons line lines)
  show ?case
  proof (cases i)
    case 0
    then have "fst (parseDotEnvLine line data) = Some err"
      using Cons.prems(3) parseDotEnvLine_error_indep [of line data Map.empty] by simp
    then show ?thesis using 0 by (cases "parseDotEnvLine line data") simp
  next
    case (Suc k)
    have "fst (parseDotEnvLine line Map.empty) = None"
      using Cons.prems(2) Suc by auto
    then have ok: "fst (parseDotEnvLine line data) = None"
      using parseDotEnvLine_error_indep [of line data Map.empty] by simp
    have k: "k < length lines" using Cons.prems(1) Suc by simp
    have pre: "\<forall>j<k. fst (parseDotEnvLine (lines ! j) Map.empty) = None"
      using Cons.prems(2) Suc by auto
    have at: "fst (parseDotEnvLine (lines ! k) Map.empty) = Some err"
      using Cons.prems(3) Suc by simp
    show ?thesis
      using ok Cons.IH [OF k pre at, of "n + 1"] Suc
      by (cases "parseDotEnvLine line data") simp
  qed
qed

lemma parseDotEnvLines_pass:
  assumes "\<forall>j<length tokens. fst (parseDotEnvLine (tokens ! j) Map.empty) = None"
  shows "fst (parseDotEnvLines tokens n data) = None"
  using assms
proof (induction tokens arbitrary: n data)
  case Nil
  then show ?case by simp
next
  case (Cons line lines)
  have "fst (parseDotEnvLine line Map.empty) = None"
    using Cons.prems by auto
  then have ok: "fst (parseDotEnvLine line data) = None"
    using parseDotEnvLine_error_indep [of line data Map.empty] by simp
  have "\<forall>j<length lines. fst (parseDotEnvLine (lines ! j) Map.empty) = None"
    using Cons.prems by auto
  from Cons.IH [OF this] ok show ?case
    by (cases "parseDotEnvLine line data") simp
qed

lemma parseDotEnvContent_fail:
  assumes "scan (SkipOnly content) [] = (tokens, scanErr)" and "i < length tokens"
    and "\<forall>j<i. fst (parseDotEnvLine (tokens ! j) Map.empty) = None"
    and "fst (parseDotEnvLine (tokens ! i) Map.empty) = Some err"
  shows "fst (parseDotEnvContent content data) = Some (Wrapf err (''line '' @ fmt_d i))"
  using parseDotEnvLines_fail [OF assms(2,3,4), of 0 data] assms(1)
  by (cases "parseDotEnvLines tokens 0 data") (simp add: parseDotEnvContent_def)

lemma parseDotEnvContent_pass:
  assumes "scan (SkipOnly content) [] = (tokens, scanErr)"
    and "\<forall>j<length tokens. fst (parseDotEnvLine (tokens ! j) Map.empty) = None"
  shows "fst (parseDotEnvContent content data) = scanErr"
  using parseDotEnvLines_pass [OF assms(2), of 0 data] assms(1)
  by (cases "parseDotEnvLines tokens 0 data") (simp add: parseDotEnvContent_def)

lemma SkipOnly_utf8_bom: "SkipOnly (CHR 0xEF # CHR 0xBB # CHR 0xBF # c) = c"
  by (cases c) (simp_all add: SkipOnly_def byte_def Let_def)

lemma scan_dotenvDoc:
  "scan (SkipOnly dotenvDoc) [] = ([''A=1'', [], '' # c'', ''  B'', ''C=3''], None)"
  by (simp add: dotenvDoc_def SkipOnly_def byte_def MaxScanTokenSize_def dropCR_def)

text \<open>A line that fills the buffer of the scanner before its newline stops the scan.\<close>

lemma scan_too_long:
  assumes "length held < MaxScanTokenSize"
    and "MaxScanTokenSize \<le> length held + length cs"
    and "CHR 0x0A \<notin> set (take (MaxScanTokenSize - length held) cs)"
  shows "scan cs held = ([], Some ErrTooLong)"
  using assms
proof (induction cs arbitrary: held)
  case Nil
  then show ?case by simp
next
  case (Cons c cs)
  have pos: "0 < MaxScanTokenSize - length held" using Cons.prems(1) by simp
  then obtain m where m: "MaxScanTokenSize - length held = Suc m"
    by (cases "MaxScanTokenSize - length held") auto
  have c: "c \<noteq> CHR 0x0A" using Cons.prems(3) m by auto
  show ?case
  proof (cases "MaxScanTokenSize \<le> Suc (length held)")
    case True
    then show ?thesis using c by simp
  next
    case False
    have 1: "length (c # held) < MaxScanTokenSize" using False by simp
    have 2: "MaxScanTokenSize \<le> length (c # held) + length cs" using Cons.prems(2) by simp
    have "MaxScanTokenSize - length (c # held) = m" using m by simp
    then have 3: "CHR 0x0A \<notin> set (take (MaxScanTokenSize - length (c # held)) cs)"
      using Cons.prems(3) m by auto
    show ?thesis using Cons.IH [OF 1 2 3] False c by simp
  qed
qed

section \<open>The base64 encoding and its decoder\<close>

lemma indexByte_nth:
  "distinct xs \<Longrightarrow> i < length xs \<Longrightarrow> indexByte xs (xs ! i) = Some i"
proof (induction xs arbitrary: i)
  case Nil
  then show ?case by simp
next
  case (Cons x xs)
  show ?case
  proof (cases i)
    case 0
    then show ?thesis by simp
  next
    case (Suc j)
    then have "xs ! j \<in> set xs" using Cons.prems by simp
    then have "x \<noteq> xs ! j" using Cons.prems by auto
    then show ?thesis using Suc Cons by simp
  qed
qed

lemma distinct_encodeStd: "distinct encodeStd"
  by (simp add: encodeStd_def)

lemma length_encodeStd: "length encodeStd = 64"
  by (simp add: encodeStd_def)

lemma decodeMap_encode6: "decodeMap (encode6 v) = Some (v mod 64)"
  unfolding decodeMap_def encode6_def
  by (rule indexByte_nth [OF distinct_encodeStd]) (simp add: length_encodeStd)

lemma padding_not_in_alphabet: "StdPadding \<notin> set encodeStd"
  by (simp add: encodeStd_def StdPadding_def)

lemma encode6_not_padding: "encode6 v \<noteq> StdPadding"
proof -
  have "encode6 v \<in> set encodeStd"
    unfolding encode6_def by (rule nth_mem) (simp add: length_encodeStd)
  then show ?thesis using padding_not_in_alphabet by auto
qed

lemma byte_less: "byte c < 256"
  unfolding byte_def
  by (metis of_char_mod_256 mod_less_divisor zero_less_numeral)

lemma char_of_byte: "char_of (byte c) = c"
  by (simp add: byte_def)

lemma split64:
  fixes v :: nat
  shows "v div 4096 = v div 64 div 64" and "v div 262144 = v div 64 div 64 div 64"
  by (simp_all add: div_mult2_eq [symmetric])

lemma regroup_sum:
  fixes v :: nat
  assumes "v < 16777216"
  shows "((v div 262144 mod 64 * 64 + v div 4096 mod 64) * 64 + v div 64 mod 64) * 64 + v mod 64 = v"
proof -
  define q1 where "q1 = v div 64"
  define q2 where "q2 = q1 div 64"
  define q3 where "q3 = q2 div 64"
  have e1: "v = q1 * 64 + v mod 64" unfolding q1_def by simp
  have e2: "q1 = q2 * 64 + q1 mod 64" unfolding q2_def by simp
  have e3: "q2 = q3 * 64 + q2 mod 64" unfolding q3_def by simp
  have "q3 < 64" unfolding q3_def q2_def q1_def using assms by simp
  then have e4: "q3 mod 64 = q3" by simp
  have "((q3 mod 64 * 64 + q2 mod 64) * 64 + q1 mod 64) * 64 + v mod 64 = v"
    unfolding e4 using e1 e2 e3 by simp
  then show ?thesis
    unfolding split64 q1_def q2_def q3_def .
qed

lemma bytes_of_val:
  fixes A B C :: nat
  assumes "A < 256" "B < 256" "C < 256"
  shows "(A * 65536 + B * 256 + C) div 65536 = A"
    and "(A * 65536 + B * 256 + C) div 256 mod 256 = B"
    and "(A * 65536 + B * 256 + C) mod 256 = C"
    and "A * 65536 + B * 256 + C < 16777216"
proof -
  have s: "B * 256 + C < 65536" using assms by simp
  have "(A * 65536 + B * 256 + C) div 65536 = (B * 256 + C + A * 65536) div 65536"
    by (simp add: add.commute add.left_commute)
  also have "\<dots> = A + (B * 256 + C) div 65536"
    by (rule div_mult_self1) simp
  also have "\<dots> = A" using s by simp
  finally show "(A * 65536 + B * 256 + C) div 65536 = A" .
  have "(A * 65536 + B * 256 + C) div 256 = (C + (A * 256 + B) * 256) div 256"
    by (simp add: algebra_simps)
  also have "\<dots> = (A * 256 + B) + C div 256"
    by (rule div_mult_self1) simp
  also have "\<dots> = A * 256 + B" using assms by simp
  finally have d: "(A * 65536 + B * 256 + C) div 256 = A * 256 + B" .
  show "(A * 65536 + B * 256 + C) div 256 mod 256 = B"
    unfolding d using assms by simp
  have "(A * 65536 + B * 256 + C) mod 256 = (C + (A * 256 + B) * 256) mod 256"
    by (simp add: algebra_simps)
  also have "\<dots> = C mod 256"
    by (rule mod_mult_self1)
  also have "\<dots> = C" using assms by simp
  finally show "(A * 65536 + B * 256 + C) mod 256 = C" .
  show "A * 65536 + B * 256 + C < 16777216" using assms by simp
qed

lemma low_bits_zero:
  fixes A B :: nat
  shows "(A * 65536 + B * 256) mod 64 = 0"
    and "(A * 65536) mod 64 = 0" and "(A * 65536) div 64 mod 64 = 0"
proof -
  have "A * 65536 + B * 256 = (A * 1024 + B * 4) * 64" by simp
  then show "(A * 65536 + B * 256) mod 64 = 0" by simp
  have e: "A * 65536 = (A * 1024) * 64" by simp
  then show "(A * 65536) mod 64 = 0" by simp
  have "(A * 65536) div 64 = (A * 16) * 64" by simp
  then show "(A * 65536) div 64 mod 64 = 0" by simp
qed

lemma regroup:
  fixes v :: nat
  assumes "v < 16777216"
  shows "foldl (\<lambda>acc d. acc * 64 + d) 0
           [v div 262144 mod 64, v div 4096 mod 64, v div 64 mod 64, v mod 64] = v"
proof -
  have "foldl (\<lambda>acc d. acc * 64 + d) 0
           [v div 262144 mod 64, v div 4096 mod 64, v div 64 mod 64, v mod 64]
        = ((v div 262144 mod 64 * 64 + v div 4096 mod 64) * 64 + v div 64 mod 64) * 64 + v mod 64"
    by simp
  also have "\<dots> = v"
    using assms by (rule regroup_sum)
  finally show ?thesis .
qed

lemma those_decodeMap:
  "those (map decodeMap (map encode6 vs)) = Some (map (\<lambda>v. v mod 64) vs)"
  by (induction vs) (simp_all add: decodeMap_encode6)

lemma bytes_of_val_chars:
  assumes "v = byte a * 65536 + byte b * 256 + byte c"
  shows "char_of (v div 65536) = a" and "char_of (v div 256) = b" and "char_of v = c"
proof -
  show "char_of (v div 65536) = a"
    unfolding assms using bytes_of_val(1) [OF byte_less byte_less byte_less, of a b c]
    by (simp add: char_of_byte)
  have "char_of (v div 256 mod 256) = b"
    unfolding assms using bytes_of_val(2) [OF byte_less byte_less byte_less, of a b c]
    by (simp only: char_of_byte)
  then show "char_of (v div 256) = b"
    by (simp only: char_of_mod_256)
  have "char_of (v mod 256) = c"
    unfolding assms using bytes_of_val(3) [OF byte_less byte_less byte_less, of a b c]
    by (simp only: char_of_byte)
  then show "char_of v = c"
    by (simp only: char_of_mod_256)
qed

lemma decodeQuantum3:
  assumes "v = byte a * 65536 + byte b * 256 + byte c"
  shows "decodeQuantum
     [encode6 (v div 262144), encode6 (v div 4096), encode6 (v div 64), encode6 v] 3
       = Some [a, b, c]"
proof -
  have lt: "v < 16777216"
    unfolding assms using bytes_of_val(4) [OF byte_less byte_less byte_less] .
  have th: "those (map decodeMap
              [encode6 (v div 262144), encode6 (v div 4096), encode6 (v div 64), encode6 v])
            = Some [v div 262144 mod 64, v div 4096 mod 64, v div 64 mod 64, v mod 64]"
    using those_decodeMap [of "[v div 262144, v div 4096, v div 64, v]"] by simp
  show ?thesis
    unfolding decodeQuantum_def th
    using regroup [OF lt] bytes_of_val_chars [OF assms]
    by (simp add: Let_def del: foldl_Cons)
qed

lemma pad3: "[d0, d1, d2] @ replicate (4 - length [d0, d1, d2]) (0::nat) = [d0, d1, d2, 0]"
  by (simp add: numeral_eq_Suc)

lemma pad2: "[d0, d1] @ replicate (4 - length [d0, d1]) (0::nat) = [d0, d1, 0, 0]"
  by (simp add: numeral_eq_Suc)

lemma decodeQuantum2:
  assumes "v = byte a * 65536 + byte b * 256"
  shows "decodeQuantum [encode6 (v div 262144), encode6 (v div 4096), encode6 (v div 64)] 2
           = Some [a, b]"
proof -
  have v0: "v = byte a * 65536 + byte b * 256 + byte (CHR 0x00)"
    using assms by (simp add: byte_def)
  have lt: "v < 16777216"
    unfolding v0 using bytes_of_val(4) [OF byte_less byte_less byte_less] .
  have z: "v mod 64 = 0"
    unfolding assms by (rule low_bits_zero(1))
  have th: "those (map decodeMap
              [encode6 (v div 262144), encode6 (v div 4096), encode6 (v div 64)])
            = Some [v div 262144 mod 64, v div 4096 mod 64, v div 64 mod 64]"
    using those_decodeMap [of "[v div 262144, v div 4096, v div 64]"] by simp
  have pad: "[v div 262144 mod 64, v div 4096 mod 64, v div 64 mod 64]
               @ replicate (4 - length [v div 262144 mod 64, v div 4096 mod 64, v div 64 mod 64]) 0
             = [v div 262144 mod 64, v div 4096 mod 64, v div 64 mod 64, v mod 64]"
    unfolding pad3 using z by simp
  show ?thesis
    unfolding decodeQuantum_def th option.case Let_def pad
    using regroup [OF lt] bytes_of_val_chars(1,2) [OF v0]
    by (simp add: numeral_2_eq_2 del: foldl_Cons)
qed

lemma decodeQuantum1:
  assumes "v = byte a * 65536"
  shows "decodeQuantum [encode6 (v div 262144), encode6 (v div 4096)] 1 = Some [a]"
proof -
  have v0: "v = byte a * 65536 + byte (CHR 0x00) * 256 + byte (CHR 0x00)"
    using assms by (simp add: byte_def)
  have lt: "v < 16777216"
    unfolding v0 using bytes_of_val(4) [OF byte_less byte_less byte_less] .
  have z: "v mod 64 = 0" "v div 64 mod 64 = 0"
    unfolding assms by (rule low_bits_zero(2), rule low_bits_zero(3))
  have th: "those (map decodeMap [encode6 (v div 262144), encode6 (v div 4096)])
            = Some [v div 262144 mod 64, v div 4096 mod 64]"
    using those_decodeMap [of "[v div 262144, v div 4096]"] by simp
  have pad: "[v div 262144 mod 64, v div 4096 mod 64]
               @ replicate (4 - length [v div 262144 mod 64, v div 4096 mod 64]) 0
             = [v div 262144 mod 64, v div 4096 mod 64, v div 64 mod 64, v mod 64]"
    unfolding pad2 using z by simp
  show ?thesis
    unfolding decodeQuantum_def th option.case Let_def pad
    using regroup [OF lt] bytes_of_val_chars(1) [OF v0]
    by (simp del: foldl_Cons)
qed

lemma EncodeToString_Nil_iff: "EncodeToString src = [] \<longleftrightarrow> src = []"
  by (induction src rule: EncodeToString.induct) (simp_all add: Let_def)

lemma DecodeString_EncodeToString: "DecodeString (EncodeToString src) = Some src"
proof (induction src rule: EncodeToString.induct)
  case 1
  then show ?case by simp
next
  case (2 a)
  show ?case
    using decodeQuantum1 [of "byte a * 65536" a] by (simp add: Let_def)
next
  case (3 a b)
  show ?case
    using decodeQuantum2 [of "byte a * 65536 + byte b * 256" a b] encode6_not_padding
    by (simp add: Let_def)
next
  case (4 a b c src)
  define v where "v = byte a * 65536 + byte b * 256 + byte c"
  have q: "decodeQuantum
     [encode6 (v div 262144), encode6 (v div 4096), encode6 (v div 64), encode6 v] 3
       = Some [a, b, c]"
    using decodeQuantum3 [OF v_def] .
  show ?case
  proof (cases "EncodeToString src")
    case Nil
    then have "src = []" using EncodeToString_Nil_iff by simp
    then show ?thesis
      using q encode6_not_padding by (simp add: Let_def v_def)
  next
    case (Cons e es)
    have "DecodeString (e # es) = Some src"
      using "4.IH" Cons by simp
    then show ?thesis
      using q Cons by (simp add: Let_def v_def)
  qed
qed

section \<open>Every source adds its own pairs\<close>

text \<open>
  No parser reads the map it writes into: the error of a source, the pairs it stores and
  the files it reads are the same whatever the map and the log were before.
\<close>

lemma parseDotEnvLine_adds:
  "parseDotEnvLine line data =
     (fst (parseDotEnvLine line Map.empty), data ++ snd (parseDotEnvLine line Map.empty))"
  by (simp add: parseDotEnvLine_unfold Let_def)

lemma parseDotEnvLines_adds:
  "parseDotEnvLines ls n data =
     (fst (parseDotEnvLines ls n Map.empty), data ++ snd (parseDotEnvLines ls n Map.empty))"
proof (induction ls arbitrary: n data)
  case Nil
  then show ?case by simp
next
  case (Cons line ls)
  obtain e b where l0: "parseDotEnvLine line Map.empty = (e, b)"
    by (cases "parseDotEnvLine line Map.empty")
  have l: "parseDotEnvLine line data = (e, data ++ b)"
    using parseDotEnvLine_adds [of line data] l0 by simp
  show ?case
  proof (cases e)
    case (Some err)
    then show ?thesis using l l0 by simp
  next
    case None
    obtain E B where r0: "parseDotEnvLines ls (n + 1) Map.empty = (E, B)"
      by (cases "parseDotEnvLines ls (n + 1) Map.empty")
    have r1: "parseDotEnvLines ls (n + 1) b = (E, b ++ B)"
      using Cons.IH [of "n + 1" b] r0 by simp
    have r2: "parseDotEnvLines ls (n + 1) (data ++ b) = (E, (data ++ b) ++ B)"
      using Cons.IH [of "n + 1" "data ++ b"] r0 by simp
    show ?thesis using None l l0 r1 r2 by simp
  qed
qed

lemma parseDotEnvContent_adds:
  "parseDotEnvContent content data =
     (fst (parseDotEnvContent content Map.empty),
      data ++ snd (parseDotEnvContent content Map.empty))"
proof -
  obtain tokens scanErr where s: "scan (SkipOnly content) [] = (tokens, scanErr)"
    by (cases "scan (SkipOnly content) []")
  obtain E B where r0: "parseDotEnvLines tokens 0 Map.empty = (E, B)"
    by (cases "parseDotEnvLines tokens 0 Map.empty")
  have r: "parseDotEnvLines tokens 0 data = (E, data ++ B)"
    using parseDotEnvLines_adds [of tokens 0 data] r0 by simp
  show ?thesis
    by (cases E) (simp_all add: parseDotEnvContent_def s r r0)
qed

lemma storeEncoded_adds: "storeEncoded d data = data ++ storeEncoded d Map.empty"
  by (simp add: storeEncoded_def)

lemma parseYAMLContent_adds:
  "parseYAMLContent W content data =
     (fst (parseYAMLContent W content Map.empty),
      data ++ snd (parseYAMLContent W content Map.empty))"
  using storeEncoded_adds [of _ data]
  by (simp add: parseYAMLContent_def split: sum.splits)

lemma parseJSONContent_adds:
  "parseJSONContent W content data =
     (fst (parseJSONContent W content Map.empty),
      data ++ snd (parseJSONContent W content Map.empty))"
  using storeEncoded_adds [of _ data]
  by (simp add: parseJSONContent_def split: sum.splits)

lemma parseEnvSource_adds:
  "parseEnvSource W source data lg =
     (fst (parseEnvSource W source Map.empty []),
      data ++ fst (snd (parseEnvSource W source Map.empty [])), lg @ [source])"
proof (cases "files W source")
  case (Inl err)
  then show ?thesis by (simp add: parseEnvSource_def ReadFile_def)
next
  case (Inr content)
  show ?thesis
  proof (cases "sopsdecrypt_Data W content (formatForPath source)")
    case (Inl err)
    then show ?thesis using Inr by (simp add: parseEnvSource_def ReadFile_def)
  next
    case decrypted: (Inr decrypted)
    show ?thesis
      using Inr decrypted
        parseDotEnvContent_adds [of decrypted data]
        parseYAMLContent_adds [of W decrypted data]
        parseJSONContent_adds [of W decrypted data]
      by (simp add: parseEnvSource_def ReadFile_def Let_def split: prod.splits)
  qed
qed

lemma parseFileSource_adds:
  "parseFileSource W source data lg =
     (fst (parseFileSource W source Map.empty []),
      data ++ fst (snd (parseFileSource W source Map.empty [])),
      lg @ snd (snd (parseFileSource W source Map.empty [])))"
  by (simp add: parseFileSource_def ReadFile_def split: sum.splits prod.splits)

lemma reads_env: "reads W (FromEnv source) = [source]"
proof -
  have "snd (snd (parseEnvSource W source Map.empty [])) = snd (snd (fst (parseEnvSource W source Map.empty []),
      Map.empty ++ fst (snd (parseEnvSource W source Map.empty [])), [] @ [source]))"
    using parseEnvSource_adds [of W source Map.empty "[]"] by (rule arg_cong)
  then show ?thesis by (simp add: reads_def)
qed

lemma resolveAlone_env:
  "parseEnvSource W source data lg =
     (failure W (FromEnv source), data ++ yield W (FromEnv source), lg @ reads W (FromEnv source))"
  using parseEnvSource_adds [of W source data lg]
  by (simp add: failure_def yield_def reads_env)

lemma resolveAlone_file:
  "parseFileSource W source data lg =
     (failure W (FromFile source), data ++ yield W (FromFile source), lg @ reads W (FromFile source))"
  using parseFileSource_adds [of W source data lg]
  by (simp add: failure_def yield_def reads_def)

lemma parseEnvSources_run:
  assumes "\<forall>s\<in>set pre. failure W (FromEnv s) = None"
  shows "parseEnvSources W (pre @ rest) data lg =
           parseEnvSources W rest (foldl (++) data (map (yield W \<circ> FromEnv) pre))
             (lg @ concat (map (reads W \<circ> FromEnv) pre))"
  using assms
proof (induction pre arbitrary: data lg)
  case Nil
  then show ?case by simp
next
  case (Cons s pre)
  have "failure W (FromEnv s) = None" using Cons.prems by simp
  then have step: "parseEnvSource W s data lg =
      (None, data ++ yield W (FromEnv s), lg @ reads W (FromEnv s))"
    using resolveAlone_env [of W s data lg] by simp
  have "\<forall>s\<in>set pre. failure W (FromEnv s) = None" using Cons.prems by simp
  from Cons.IH [OF this] step show ?case by simp
qed

lemma parseFileSources_run:
  assumes "\<forall>s\<in>set pre. failure W (FromFile s) = None"
  shows "parseFileSources W (pre @ rest) data lg =
           parseFileSources W rest (foldl (++) data (map (yield W \<circ> FromFile) pre))
             (lg @ concat (map (reads W \<circ> FromFile) pre))"
  using assms
proof (induction pre arbitrary: data lg)
  case Nil
  then show ?case by simp
next
  case (Cons s pre)
  have "failure W (FromFile s) = None" using Cons.prems by simp
  then have step: "parseFileSource W s data lg =
      (None, data ++ yield W (FromFile s), lg @ reads W (FromFile s))"
    using resolveAlone_file [of W s data lg] by simp
  have "\<forall>s\<in>set pre. failure W (FromFile s) = None" using Cons.prems by simp
  from Cons.IH [OF this] step show ?case by simp
qed

lemma parseEnvSources_all:
  assumes "\<forall>s\<in>set srcs. failure W (FromEnv s) = None"
  shows "parseEnvSources W srcs data lg =
           (None, foldl (++) data (map (yield W \<circ> FromEnv) srcs),
            lg @ concat (map (reads W \<circ> FromEnv) srcs))"
  using parseEnvSources_run [OF assms, of "[]" data lg] by simp

lemma parseFileSources_all:
  assumes "\<forall>s\<in>set srcs. failure W (FromFile s) = None"
  shows "parseFileSources W srcs data lg =
           (None, foldl (++) data (map (yield W \<circ> FromFile) srcs),
            lg @ concat (map (reads W \<circ> FromFile) srcs))"
  using parseFileSources_run [OF assms, of "[]" data lg] by simp

lemma parseEnvSources_stop:
  assumes "\<forall>s\<in>set pre. failure W (FromEnv s) = None"
    and "failure W (FromEnv source) = Some err"
  shows "parseEnvSources W (pre @ source # post) data lg =
           (Some (Wrapf err (''env source '' @ source)),
            foldl (++) data (map (yield W \<circ> FromEnv) (pre @ [source])),
            lg @ concat (map (reads W \<circ> FromEnv) (pre @ [source])))"
  using parseEnvSources_run [OF assms(1), of "source # post" data lg]
    resolveAlone_env [of W source] assms(2)
  by simp

lemma parseFileSources_stop:
  assumes "\<forall>s\<in>set pre. failure W (FromFile s) = None"
    and "failure W (FromFile source) = Some err"
  shows "parseFileSources W (pre @ source # post) data lg =
           (Some (Wrapf err (''file source '' @ source)),
            foldl (++) data (map (yield W \<circ> FromFile) (pre @ [source])),
            lg @ concat (map (reads W \<circ> FromFile) (pre @ [source])))"
  using parseFileSources_run [OF assms(1), of "source # post" data lg]
    resolveAlone_file [of W source] assms(2)
  by simp

lemma parseInput_all:
  assumes "\<forall>d\<in>set (declarationOrder g). failure W d = None"
  shows "parseInput W g lg =
           (Inr (foldl (++) Map.empty (map (yield W) (declarationOrder g))),
            lg @ concat (map (reads W) (declarationOrder g)))"
proof -
  have e: "\<forall>s\<in>set (EnvSources g). failure W (FromEnv s) = None"
    and f: "\<forall>s\<in>set (FileSources g). failure W (FromFile s) = None"
    using assms by (auto simp: declarationOrder_def)
  show ?thesis
    unfolding parseInput_def
    by (simp add: parseEnvSources_all [OF e] parseFileSources_all [OF f] declarationOrder_def)
qed

lemma foldl_map_add_last:
  assumes "j < length bs" and "bs ! j = b" and "b K = Some v"
    and "\<forall>l. j < l \<and> l < length bs \<longrightarrow> (bs ! l) K = None"
  shows "(foldl (++) d bs) K = Some v"
  using assms
proof (induction bs arbitrary: b rule: rev_induct)
  case Nil
  then show ?case by simp
next
  case (snoc x xs)
  show ?case
  proof (cases "j = length xs")
    case True
    then have "x K = Some v" using snoc.prems by simp
    then show ?thesis by (simp add: map_add_Some_iff)
  next
    case False
    then have j: "j < length xs" using snoc.prems(1) by simp
    have last: "x K = None"
      using snoc.prems(4) j by (auto dest: spec [of _ "length xs"])
    have at: "xs ! j = b" using snoc.prems(2) j by (simp add: nth_append)
    have later: "\<forall>l. j < l \<and> l < length xs \<longrightarrow> (xs ! l) K = None"
    proof (intro allI impI)
      fix l assume l: "j < l \<and> l < length xs"
      then have "((xs @ [x]) ! l) K = None" using snoc.prems(4) by simp
      then show "(xs ! l) K = None" using l by (simp add: nth_append)
    qed
    have "(foldl (++) d xs) K = Some v"
      using snoc.IH [OF j at snoc.prems(3) later] .
    then show ?thesis using last by (simp add: map_add_Some_iff)
  qed
qed

text \<open>A run that succeeds resolved every source; every value it stored is an encoding.\<close>

lemma parseEnvSources_failing:
  assumes "\<exists>s\<in>set srcs. failure W (FromEnv s) \<noteq> None"
  shows "fst (parseEnvSources W srcs data lg) \<noteq> None"
proof -
  obtain pre s post where sp: "srcs = pre @ s # post"
    and bad: "failure W (FromEnv s) \<noteq> None"
    and ok: "\<forall>x\<in>set pre. \<not> failure W (FromEnv x) \<noteq> None"
    using split_list_first_prop [OF assms] by blast
  obtain err where "failure W (FromEnv s) = Some err" using bad by auto
  then show ?thesis
    using parseEnvSources_stop [of pre W s err post data lg] ok sp by simp
qed

lemma parseFileSources_failing:
  assumes "\<exists>s\<in>set srcs. failure W (FromFile s) \<noteq> None"
  shows "fst (parseFileSources W srcs data lg) \<noteq> None"
proof -
  obtain pre s post where sp: "srcs = pre @ s # post"
    and bad: "failure W (FromFile s) \<noteq> None"
    and ok: "\<forall>x\<in>set pre. \<not> failure W (FromFile x) \<noteq> None"
    using split_list_first_prop [OF assms] by blast
  obtain err where "failure W (FromFile s) = Some err" using bad by auto
  then show ?thesis
    using parseFileSources_stop [of pre W s err post data lg] ok sp by simp
qed

lemma parseInput_Inr_all:
  assumes "parseInput W g lg = (Inr data, lg')"
  shows "\<forall>d\<in>set (declarationOrder g). failure W d = None"
proof -
  have e: "\<forall>s\<in>set (EnvSources g). failure W (FromEnv s) = None"
  proof (rule ccontr)
    assume "\<not> (\<forall>s\<in>set (EnvSources g). failure W (FromEnv s) = None)"
    then have "fst (parseEnvSources W (EnvSources g) Map.empty lg) \<noteq> None"
      using parseEnvSources_failing [of "EnvSources g" W Map.empty lg] by blast
    then show False
      using assms by (auto simp: parseInput_def split: prod.splits option.splits)
  qed
  have f: "\<forall>s\<in>set (FileSources g). failure W (FromFile s) = None"
  proof (rule ccontr)
    assume "\<not> (\<forall>s\<in>set (FileSources g). failure W (FromFile s) = None)"
    then have bad: "\<And>d l. fst (parseFileSources W (FileSources g) d l) \<noteq> None"
      using parseFileSources_failing [of "FileSources g" W] by blast
    obtain e1 d1 l1 where p1: "parseEnvSources W (EnvSources g) Map.empty lg = (e1, d1, l1)"
      by (cases "parseEnvSources W (EnvSources g) Map.empty lg")
    obtain e2 d2 l2 where p2: "parseFileSources W (FileSources g) d1 l1 = (e2, d2, l2)"
      by (cases "parseFileSources W (FileSources g) d1 l1")
    have "e2 \<noteq> None" using bad [of d1 l1] p2 by simp
    then show False
      using assms p1 p2 by (cases e1; cases e2) (simp_all add: parseInput_def)
  qed
  show ?thesis using e f by (auto simp: declarationOrder_def)
qed

lemma ran_map_add_encoded:
  assumes "ran a \<subseteq> range EncodeToString" and "ran b \<subseteq> range EncodeToString"
  shows "ran (a ++ b) \<subseteq> range EncodeToString"
  using assms by (auto simp: ran_def map_add_Some_iff)

lemma ran_upd_encoded:
  assumes "ran a \<subseteq> range EncodeToString"
  shows "ran (a(k \<mapsto> EncodeToString v)) \<subseteq> range EncodeToString"
  using assms by (auto simp: ran_def split: if_splits)

lemma parseDotEnvLine_encoded:
  assumes "ran data \<subseteq> range EncodeToString"
  shows "ran (snd (parseDotEnvLine line data)) \<subseteq> range EncodeToString"
  using assms ran_upd_encoded [OF assms]
  by (simp add: parseDotEnvLine_unfold Let_def)

lemma parseDotEnvLines_encoded:
  assumes "ran data \<subseteq> range EncodeToString"
  shows "ran (snd (parseDotEnvLines ls n data)) \<subseteq> range EncodeToString"
  using assms
proof (induction ls arbitrary: n data)
  case Nil
  then show ?case by simp
next
  case (Cons line ls)
  obtain e d' where l: "parseDotEnvLine line data = (e, d')"
    by (cases "parseDotEnvLine line data")
  have d': "ran d' \<subseteq> range EncodeToString"
    using parseDotEnvLine_encoded [OF Cons.prems, of line] l by simp
  show ?case
    using l d' Cons.IH [OF d'] by (cases e) simp_all
qed

lemma parseDotEnvContent_encoded:
  assumes "ran data \<subseteq> range EncodeToString"
  shows "ran (snd (parseDotEnvContent content data)) \<subseteq> range EncodeToString"
proof -
  obtain tokens scanErr where s: "scan (SkipOnly content) [] = (tokens, scanErr)"
    by (cases "scan (SkipOnly content) []")
  obtain E B where r: "parseDotEnvLines tokens 0 data = (E, B)"
    by (cases "parseDotEnvLines tokens 0 data")
  have "ran B \<subseteq> range EncodeToString"
    using parseDotEnvLines_encoded [OF assms, of tokens 0] r by simp
  then show ?thesis
    by (cases E) (simp_all add: parseDotEnvContent_def s r)
qed

lemma storeEncoded_encoded:
  assumes "ran data \<subseteq> range EncodeToString"
  shows "ran (storeEncoded d data) \<subseteq> range EncodeToString"
  unfolding storeEncoded_def
  by (rule ran_map_add_encoded [OF assms]) (auto simp: ran_def)

lemma parseEnvSource_encoded:
  "ran (fst (snd (parseEnvSource W source Map.empty []))) \<subseteq> range EncodeToString"
proof (cases "files W source")
  case (Inl err)
  then show ?thesis by (simp add: parseEnvSource_def ReadFile_def)
next
  case (Inr content)
  show ?thesis
  proof (cases "sopsdecrypt_Data W content (formatForPath source)")
    case (Inl err)
    then show ?thesis using Inr by (simp add: parseEnvSource_def ReadFile_def)
  next
    case decrypted: (Inr decrypted)
    have e: "ran (Map.empty :: kvMap) \<subseteq> range EncodeToString" by simp
    have d: "ran (snd (parseDotEnvContent decrypted Map.empty)) \<subseteq> range EncodeToString"
      using parseDotEnvContent_encoded [OF e] .
    have y: "ran (snd (parseYAMLContent W decrypted Map.empty)) \<subseteq> range EncodeToString"
      using storeEncoded_encoded [OF e]
      by (cases "yaml_Unmarshal_kvMap W decrypted") (simp_all add: parseYAMLContent_def)
    have j: "ran (snd (parseJSONContent W decrypted Map.empty)) \<subseteq> range EncodeToString"
      using storeEncoded_encoded [OF e]
      by (cases "json_Unmarshal_kvMap W decrypted") (simp_all add: parseJSONContent_def)
    show ?thesis
      using Inr decrypted d y j
      by (auto simp: parseEnvSource_def ReadFile_def Let_def split: prod.splits)
  qed
qed

lemma parseFileSource_encoded:
  "ran (fst (snd (parseFileSource W source Map.empty []))) \<subseteq> range EncodeToString"
  by (auto simp: parseFileSource_def ReadFile_def split: sum.splits prod.splits)

lemma yield_encoded: "ran (yield W d) \<subseteq> range EncodeToString"
  using parseEnvSource_encoded parseFileSource_encoded
  by (cases d) (simp_all add: yield_def)

lemma foldl_yields_encoded:
  assumes "ran data \<subseteq> range EncodeToString"
  shows "ran (foldl (++) data (map (yield W) ds)) \<subseteq> range EncodeToString"
  using assms
proof (induction ds arbitrary: data)
  case Nil
  then show ?case by simp
next
  case (Cons d ds)
  have "ran (data ++ yield W d) \<subseteq> range EncodeToString"
    using ran_map_add_encoded [OF Cons.prems yield_encoded] .
  from Cons.IH [OF this] show ?case by simp
qed

lemma parseInput_encoded:
  assumes "parseInput W g lg = (Inr final, lg')" and "final key = Some entry"
  shows "\<exists>V. entry = EncodeToString V"
proof -
  have all: "\<forall>d\<in>set (declarationOrder g). failure W d = None"
    using parseInput_Inr_all [OF assms(1)] .
  have "final = foldl (++) Map.empty (map (yield W) (declarationOrder g))"
    using parseInput_all [OF all, of lg] assms(1) by simp
  moreover have "ran (foldl (++) Map.empty (map (yield W) (declarationOrder g)))
      \<subseteq> range EncodeToString"
    by (rule foldl_yields_encoded) simp
  ultimately have "entry \<in> range EncodeToString"
    using assms(2) by (auto simp: ran_def)
  then show ?thesis by auto
qed

text \<open>Yields with disjoint keys give the same map in every order.\<close>

lemma foldl_map_add_member:
  assumes "x \<in> set xs" and "f x K = Some v"
    and "\<forall>a\<in>set xs. \<forall>b\<in>set xs. a \<noteq> b \<longrightarrow> dom (f a) \<inter> dom (f b) = {}"
  shows "(foldl (++) d (map f xs)) K = Some v"
  using assms
proof (induction xs rule: rev_induct)
  case Nil
  then show ?case by simp
next
  case (snoc y ys)
  show ?case
  proof (cases "f y K")
    case None
    then have "x \<in> set ys" using snoc.prems(1,2) by auto
    moreover have "\<forall>a\<in>set ys. \<forall>b\<in>set ys. a \<noteq> b \<longrightarrow> dom (f a) \<inter> dom (f b) = {}"
      using snoc.prems(3) by simp
    ultimately have "(foldl (++) d (map f ys)) K = Some v"
      using snoc.IH snoc.prems(2) by blast
    then show ?thesis using None by (simp add: map_add_Some_iff)
  next
    case (Some w)
    have "x = y"
    proof (rule ccontr)
      assume "x \<noteq> y"
      then have "dom (f x) \<inter> dom (f y) = {}" using snoc.prems(1,3) by simp
      moreover have "K \<in> dom (f x)" "K \<in> dom (f y)" using snoc.prems(2) Some by auto
      ultimately show False by auto
    qed
    then have "w = v" using Some snoc.prems(2) by simp
    then show ?thesis using Some by (simp add: map_add_Some_iff)
  qed
qed

lemma foldl_map_add_absent:
  assumes "\<forall>x\<in>set xs. f x K = None"
  shows "(foldl (++) d (map f xs)) K = d K"
  using assms by (induction xs rule: rev_induct) (simp_all add: map_add_def)

lemma foldl_map_add_set_eq:
  assumes "set xs = set ys"
    and "\<forall>a\<in>set xs. \<forall>b\<in>set xs. a \<noteq> b \<longrightarrow> dom (f a) \<inter> dom (f b) = {}"
  shows "foldl (++) d (map f xs) = foldl (++) d (map f ys)"
proof
  fix K
  show "(foldl (++) d (map f xs)) K = (foldl (++) d (map f ys)) K"
  proof (cases "\<exists>x\<in>set xs. f x K \<noteq> None")
    case True
    then obtain x v where x: "x \<in> set xs" "f x K = Some v" by auto
    have dy: "\<forall>a\<in>set ys. \<forall>b\<in>set ys. a \<noteq> b \<longrightarrow> dom (f a) \<inter> dom (f b) = {}"
      using assms by simp
    have "x \<in> set ys" using x(1) assms(1) by simp
    then show ?thesis
      using foldl_map_add_member [OF x assms(2), of d]
        foldl_map_add_member [OF _ x(2) dy, of d] by simp
  next
    case False
    then have n: "\<forall>x\<in>set xs. f x K = None" by simp
    then have m: "\<forall>x\<in>set ys. f x K = None" using assms(1) by simp
    show ?thesis
      using foldl_map_add_absent [of xs f K d] foldl_map_add_absent [of ys f K d] n m by simp
  qed
qed

lemma generateSecret_of_parseInput:
  assumes "fst (parseInput W g' lg') = fst (parseInput W g lg)"
    and "metadata g' = metadata g" and "DisableNameSuffixHash g' = DisableNameSuffixHash g"
    and "Behavior g' = Behavior g" and "Type g' = Type g"
  shows "fst (generateSecret W g' lg') = fst (generateSecret W g lg)"
  using assms
  by (cases "parseInput W g lg"; cases "parseInput W g' lg'")
    (auto simp: generateSecret_def Let_def split: sum.splits)

text \<open>What the loop over the lines of a dotenv document leaves in the map.\<close>

lemma parseDotEnvLine_failed_keeps:
  "fst (parseDotEnvLine line data) = Some err \<Longrightarrow> snd (parseDotEnvLine line data) = data"
  by (simp add: parseDotEnvLine_unfold Let_def split: if_splits)

lemma parseDotEnvLines_fold_pass:
  assumes "\<forall>j<length tokens. fst (parseDotEnvLine (tokens ! j) Map.empty) = None"
  shows "parseDotEnvLines tokens n data =
           (None, foldl (\<lambda>d line. snd (parseDotEnvLine line d)) data tokens)"
  using assms
proof (induction tokens arbitrary: n data)
  case Nil
  then show ?case by simp
next
  case (Cons line lines)
  have "fst (parseDotEnvLine line Map.empty) = None"
    using Cons.prems by auto
  then have ok: "fst (parseDotEnvLine line data) = None"
    using parseDotEnvLine_error_indep [of line data Map.empty] by simp
  have "\<forall>j<length lines. fst (parseDotEnvLine (lines ! j) Map.empty) = None"
    using Cons.prems by auto
  from Cons.IH [OF this] ok show ?case
    by (cases "parseDotEnvLine line data") simp
qed

lemma parseDotEnvLines_fold_fail:
  assumes "i < length tokens"
    and "\<forall>j<i. fst (parseDotEnvLine (tokens ! j) Map.empty) = None"
    and "fst (parseDotEnvLine (tokens ! i) Map.empty) = Some err"
  shows "parseDotEnvLines tokens n data =
           (Some (Wrapf err (''line '' @ fmt_d (n + i))),
            foldl (\<lambda>d line. snd (parseDotEnvLine line d)) data (take i tokens))"
  using assms
proof (induction tokens arbitrary: i n data)
  case Nil
  then show ?case by simp
next
  case (Cons line lines)
  show ?case
  proof (cases i)
    case 0
    then have f: "fst (parseDotEnvLine line data) = Some err"
      using Cons.prems(3) parseDotEnvLine_error_indep [of line data Map.empty] by simp
    then have "snd (parseDotEnvLine line data) = data"
      by (rule parseDotEnvLine_failed_keeps)
    then show ?thesis using 0 f by (cases "parseDotEnvLine line data") simp
  next
    case (Suc k)
    have "fst (parseDotEnvLine line Map.empty) = None"
      using Cons.prems(2) Suc by auto
    then have ok: "fst (parseDotEnvLine line data) = None"
      using parseDotEnvLine_error_indep [of line data Map.empty] by simp
    have k: "k < length lines" using Cons.prems(1) Suc by simp
    have pre: "\<forall>j<k. fst (parseDotEnvLine (lines ! j) Map.empty) = None"
      using Cons.prems(2) Suc by auto
    have at: "fst (parseDotEnvLine (lines ! k) Map.empty) = Some err"
      using Cons.prems(3) Suc by simp
    show ?thesis
      using ok Cons.IH [OF k pre at, of "n + 1"] Suc
      by (cases "parseDotEnvLine line data") simp
  qed
qed

lemma fold_lines_as_map_add:
  "foldl (\<lambda>d line. snd (parseDotEnvLine line d)) data tokens =
     foldl (++) data (map (\<lambda>line. snd (parseDotEnvLine line Map.empty)) tokens)"
proof (induction tokens arbitrary: data)
  case Nil
  then show ?case by simp
next
  case (Cons line lines)
  have "snd (parseDotEnvLine line data) = data ++ snd (parseDotEnvLine line Map.empty)"
    using parseDotEnvLine_adds [of line data] by simp
  then show ?case using Cons.IH by simp
qed

section \<open>The example world, evaluated\<close>

lemma fmt_bin: "formatForPath ''b.bin'' = ''binary''"
  by (simp add: formatForPath_def IsYAMLFile_def IsJSONFile_def IsEnvFile_def HasSuffix_def)

lemma fmt_txt: "formatForPath ''plain.txt'' = ''binary''"
  by (simp add: formatForPath_def IsYAMLFile_def IsJSONFile_def IsEnvFile_def HasSuffix_def)

lemma fmt_missing: "formatForPath ''missing.bin'' = ''binary''"
  by (simp add: formatForPath_def IsYAMLFile_def IsJSONFile_def IsEnvFile_def HasSuffix_def)

lemma parseFileName_bbin: "parseFileName ''b.bin'' = Inr (''b.bin'', ''b.bin'')"
  by (simp add: parseFileName_def Split_def Base_def lastElement_def stripTrailingSlashes.simps)

lemma fmt_a_env: "formatForPath ''a.env'' = ''dotenv''"
  by (simp add: formatForPath_def IsYAMLFile_def IsJSONFile_def IsEnvFile_def HasSuffix_def)

lemma fmt_c_yaml: "formatForPath ''c.yaml'' = ''yaml''"
  by (simp add: formatForPath_def IsYAMLFile_def IsJSONFile_def IsEnvFile_def HasSuffix_def)

lemma fmt_d_json: "formatForPath ''d.json'' = ''json''"
  by (simp add: formatForPath_def IsYAMLFile_def IsJSONFile_def IsEnvFile_def HasSuffix_def)

lemma scan_a_env: "scan (SkipOnly aEnvDoc) [] = ([''FOO=bar'', ''#comment''], None)"
  by (simp add: aEnvDoc_def eval_defs)

lemma lines_a_env:
  "parseDotEnvLines [''FOO=bar'', ''#comment''] 0 Map.empty = (None, [''FOO'' \<mapsto> ''YmFy''])"
  by (simp add: parseDotEnvLine_unfold eval_defs)

lemma decrypt_a_env: "sopsdecrypt_Data exampleWorld aEnvDoc format = Inr aEnvDoc"
  by (simp add: exampleWorld_def aEnvDoc_def)

lemma resolve_a_env:
  "failure exampleWorld (FromEnv ''a.env'') = None \<and>
   yield exampleWorld (FromEnv ''a.env'') = [''FOO'' \<mapsto> ''YmFy''] \<and>
   reads exampleWorld (FromEnv ''a.env'') = [''a.env'']"
proof -
  have "files exampleWorld ''a.env'' = Inr aEnvDoc"
    by (simp add: exampleWorld_def)
  then have "parseEnvSource exampleWorld ''a.env'' Map.empty [] =
      (None, [''FOO'' \<mapsto> ''YmFy''], [''a.env''])"
    by (simp add: parseEnvSource_def ReadFile_def fmt_a_env decrypt_a_env
        parseDotEnvContent_def scan_a_env lines_a_env del: parseDotEnvLines.simps)
  then show ?thesis
    by (simp add: failure_def yield_def reads_def)
qed

lemma resolve_c_yaml:
  "failure exampleWorld (FromEnv ''c.yaml'') = None \<and>
   yield exampleWorld (FromEnv ''c.yaml'') ''FOO'' = Some ''YmF6'' \<and>
   reads exampleWorld (FromEnv ''c.yaml'') = [''c.yaml'']"
  by (simp add: failure_def yield_def reads_def parseEnvSource_def ReadFile_def exampleWorld_def
      fmt_c_yaml parseYAMLContent_def storeEncoded_def eval_defs)

lemma parseFileName_FOO: "parseFileName ''FOO=b.bin'' = Inr (''FOO'', ''b.bin'')"
  by (simp add: parseFileName_def Split_def numeral_2_eq_2)

lemma resolve_FOO_b_bin:
  "failure exampleWorld (FromFile ''FOO=b.bin'') = None \<and>
   yield exampleWorld (FromFile ''FOO=b.bin'') = [''FOO'' \<mapsto> ''AQI=''] \<and>
   reads exampleWorld (FromFile ''FOO=b.bin'') = [''b.bin'']"
  by (simp add: failure_def yield_def reads_def parseFileSource_def parseFileName_FOO
      ReadFile_def exampleWorld_def eval_defs)

lemma order_colliding:
  "declarationOrder collidingGenerator =
     [FromEnv ''a.env'', FromEnv ''c.yaml'', FromFile ''FOO=b.bin'']"
  by (simp add: declarationOrder_def collidingGenerator_def exampleGenerator_def)

lemma resolve_b_bin:
  "failure exampleWorld (FromFile ''b.bin'') = None \<and>
   yield exampleWorld (FromFile ''b.bin'') = [''b.bin'' \<mapsto> ''AQI=''] \<and>
   reads exampleWorld (FromFile ''b.bin'') = [''b.bin'']"
  by (simp add: failure_def yield_def reads_def parseFileSource_def parseFileName_bbin
      ReadFile_def exampleWorld_def eval_defs)

lemma run_example:
  "parseInput exampleWorld exampleGenerator [] =
     (Inr ([''FOO'' \<mapsto> ''YmFy''] ++ [''b.bin'' \<mapsto> ''AQI='']), [''a.env'', ''b.bin''])"
proof -
  have o: "declarationOrder exampleGenerator = [FromEnv ''a.env'', FromFile ''b.bin'']"
    by (simp add: declarationOrder_def exampleGenerator_def)
  have "\<forall>d\<in>set (declarationOrder exampleGenerator). failure exampleWorld d = None"
    using resolve_a_env resolve_b_bin by (simp add: o)
  from parseInput_all [OF this, of "[]"] show ?thesis
    using resolve_a_env resolve_b_bin by (simp add: o)
qed

lemma replicate4: "replicate 4 x = [x, x, x, x]"
  by (simp add: numeral_eq_Suc)

lemma take4_long: "take 4 longLineDoc = ''AAAA''"
  by (simp add: longLineDoc_def replicate4)

lemma SkipOnly_long: "SkipOnly longLineDoc = longLineDoc"
  by (simp add: SkipOnly_def Let_def take4_long byte_def)

lemma scan_long: "scan (SkipOnly longLineDoc) [] = ([], Some ErrTooLong)"
  unfolding SkipOnly_long
  by (rule scan_too_long) (simp_all add: MaxScanTokenSize_def longLineDoc_def)

lemma fmt_big_env: "formatForPath ''big.env'' = ''dotenv''"
  by (simp add: formatForPath_def IsYAMLFile_def IsJSONFile_def IsEnvFile_def HasSuffix_def)

lemma long_not_plain: "longLineDoc \<noteq> ''not encrypted''"
proof
  assume "longLineDoc = ''not encrypted''"
  then have "length longLineDoc = length ''not encrypted''" by (rule arg_cong)
  then show False by (simp add: longLineDoc_def)
qed

lemma resolve_big_env:
  "parseEnvSource exampleWorld ''big.env'' data lg = (Some ErrTooLong, data, lg @ [''big.env''])"
proof -
  have f: "files exampleWorld ''big.env'' = Inr longLineDoc"
    by (simp add: exampleWorld_def)
  have d: "sopsdecrypt_Data exampleWorld longLineDoc ''dotenv'' = Inr longLineDoc"
    using long_not_plain by (simp add: exampleWorld_def)
  show ?thesis
    by (simp add: parseEnvSource_def ReadFile_def f fmt_big_env d parseDotEnvContent_def scan_long)
qed

lemma fmt_broken_env: "formatForPath ''broken.env'' = ''dotenv''"
  by (simp add: formatForPath_def IsYAMLFile_def IsJSONFile_def IsEnvFile_def HasSuffix_def)

lemma scan_broken_env: "scan (SkipOnly brokenEnvDoc) [] = ([''OK=1'', ''novalue''], None)"
  by (simp add: brokenEnvDoc_def eval_defs)

lemma files_broken_env:
  "files exampleWorld ''broken.env'' = Inr brokenEnvDoc \<and>
   sopsdecrypt_Data exampleWorld brokenEnvDoc ''dotenv'' = Inr brokenEnvDoc"
  by (simp add: exampleWorld_def brokenEnvDoc_def)

lemma failure_abc:
  "failure exampleWorld (FromFile ''a=b=c'') =
     Some (New (''key names or file paths cannot contain '' @ [CHR 0x27, CHR ''='', CHR 0x27])) \<and>
   reads exampleWorld (FromFile ''a=b=c'') = []"
  by (simp add: failure_def reads_def parseFileSource_def parseFileName_def Split_def
      numeral_3_eq_3)

lemma readInput_failing:
  "readInput exampleWorld ''failing.yaml'' [] = (Inr failingEnvGenerator, [''failing.yaml''])"
  by (simp add: readInput_def ReadFile_def exampleWorld_def failingEnvGenerator_def
      exampleGenerator_def apiVersion_def kind_def)

lemma parseFileName_xy:
  "parseFileName ''x=b.bin'' = Inr (''x'', ''b.bin'')"
  "parseFileName ''y=c.yaml'' = Inr (''y'', ''c.yaml'')"
  by (simp_all add: parseFileName_def Split_def numeral_2_eq_2)

lemma resolve_x:
  "failure exampleWorld (FromFile ''x=b.bin'') = None \<and>
   yield exampleWorld (FromFile ''x=b.bin'') = [''x'' \<mapsto> ''AQI=''] \<and>
   reads exampleWorld (FromFile ''x=b.bin'') = [''b.bin'']"
  by (simp add: failure_def yield_def reads_def parseFileSource_def parseFileName_xy
      ReadFile_def exampleWorld_def eval_defs)

lemma resolve_y:
  "failure exampleWorld (FromFile ''y=c.yaml'') = None \<and>
   yield exampleWorld (FromFile ''y=c.yaml'') = [''y'' \<mapsto> ''Rk9POiBiYXo=''] \<and>
   reads exampleWorld (FromFile ''y=c.yaml'') = [''c.yaml'']"
  by (simp add: failure_def yield_def reads_def parseFileSource_def parseFileName_xy
      ReadFile_def exampleWorld_def eval_defs)

lemma order_xy:
  "declarationOrder xyGenerator = [FromFile ''x=b.bin'', FromFile ''y=c.yaml'']"
  "declarationOrder yxGenerator = [FromFile ''y=c.yaml'', FromFile ''x=b.bin'']"
  by (simp_all add: declarationOrder_def xyGenerator_def yxGenerator_def exampleGenerator_def)

lemma yx_of_xy:
  "xyGenerator \<lparr> EnvSources := [], FileSources := [''y=c.yaml'', ''x=b.bin''] \<rparr> = yxGenerator"
  by (simp add: xyGenerator_def yxGenerator_def)

lemma readInput_xy:
  "readInput exampleWorld ''xy.yaml'' [] = (Inr xyGenerator, [''xy.yaml''])"
  "readInput exampleWorld ''yx.yaml'' [] = (Inr yxGenerator, [''yx.yaml''])"
  by (simp_all add: readInput_def ReadFile_def exampleWorld_def xyGenerator_def yxGenerator_def
      exampleGenerator_def apiVersion_def kind_def)

lemma run_xy:
  "parseInput exampleWorld xyGenerator lg =
     (Inr (Map.empty ++ [''x'' \<mapsto> ''AQI=''] ++ [''y'' \<mapsto> ''Rk9POiBiYXo='']),
      lg @ [''b.bin'', ''c.yaml''])"
proof -
  have "\<forall>d\<in>set (declarationOrder xyGenerator). failure exampleWorld d = None"
    using resolve_x resolve_y by (simp add: order_xy)
  from parseInput_all [OF this, of lg] show ?thesis
    using resolve_x resolve_y by (simp add: order_xy)
qed

lemma run_yx:
  "parseInput exampleWorld yxGenerator lg =
     (Inr (Map.empty ++ [''y'' \<mapsto> ''Rk9POiBiYXo=''] ++ [''x'' \<mapsto> ''AQI='']),
      lg @ [''c.yaml'', ''b.bin''])"
proof -
  have "\<forall>d\<in>set (declarationOrder yxGenerator). failure exampleWorld d = None"
    using resolve_x resolve_y by (simp add: order_xy)
  from parseInput_all [OF this, of lg] show ?thesis
    using resolve_x resolve_y by (simp add: order_xy)
qed

lemma scan_threePairsDoc:
  "scan (SkipOnly threePairsDoc) [] = ([''A=1'', ''  B=2'', ''#x'', ''A=3''], None)"
  by (simp add: threePairsDoc_def eval_defs)

lemma threePairs_pass:
  "\<forall>j<length [''A=1'', ''  B=2'', ''#x'', ''A=3''].
     fst (parseDotEnvLine ([''A=1'', ''  B=2'', ''#x'', ''A=3''] ! j) Map.empty) = None"
  by (simp add: parseDotEnvLine_unfold eval_defs less_Suc_eq)

section \<open>File source specifications\<close>

lemma count_list_tl_dropWhile:
  "sep \<in> set s \<Longrightarrow> count_list (tl (dropWhile (\<lambda>c. c \<noteq> sep) s)) sep = count_list s sep - 1"
  by (induction s) auto

lemma count_list_pos: "sep \<in> set s \<Longrightarrow> 0 < count_list s sep"
  by (induction s) auto

lemma count_list_zero: "sep \<notin> set s \<Longrightarrow> count_list s sep = 0"
  by (induction s) auto

lemma length_genSplit:
  "count_list s sep = n \<Longrightarrow> length (genSplit s sep (Suc n)) = Suc n"
proof (induction n arbitrary: s)
  case 0
  then show ?case by simp
next
  case (Suc n)
  have mem: "sep \<in> set s"
    using Suc.prems count_list_zero [of sep s] by (cases "sep \<in> set s") auto
  have "count_list (tl (dropWhile (\<lambda>c. c \<noteq> sep) s)) sep = n"
    using Suc.prems mem by (simp add: count_list_tl_dropWhile)
  from Suc.IH [OF this] mem show ?case by simp
qed

lemma length_Split: "length (Split s sep) = Suc (count_list s sep)"
  unfolding Split_def using length_genSplit [of s sep "count_list s sep"] by simp

lemma Split_none: "sep \<notin> set s \<Longrightarrow> Split s sep = [s]"
  by (simp add: Split_def count_list_zero)

lemma Split_one:
  assumes "sep \<notin> set l" "sep \<notin> set r"
  shows "Split (l @ sep # r) sep = [l, r]"
proof -
  have c: "count_list (l @ sep # r) sep = 1"
    using assms by (simp add: count_list_zero)
  have t: "takeWhile (\<lambda>c. c \<noteq> sep) (l @ sep # r) = l"
    using assms(1) by (induction l) auto
  have d: "dropWhile (\<lambda>c. c \<noteq> sep) (l @ sep # r) = sep # r"
    using assms(1) by (induction l) auto
  show ?thesis
    unfolding Split_def c using t d by (simp add: numeral_2_eq_2)
qed

lemma TrimPrefix_eq: "TrimPrefix (CHR ''='' # fn) ''='' = fn"
  by (simp add: TrimPrefix_def HasPrefix_def)

lemma TrimSuffix_eq: "TrimSuffix (key @ ''='') ''='' = key"
  by (simp add: TrimSuffix_def HasSuffix_def)

text \<open>
  Claim C3. \<open>parseFileName\<close> splits a \<open>fileSources\<close> entry on \<open>=\<close>. With no \<open>=\<close> the key is
  \<open>path.Base\<close> of the entry and the path is the whole entry. With exactly one \<open>=\<close> the
  left side is the key and the right side the path; an empty left side fails with the
  error that says the key name is missing, an empty right side with the error that says
  the file path is missing. With more than one \<open>=\<close> the entry is rejected. The entries
  \<open>a/b/file.txt\<close>, \<open>k=path/to/f\<close>, \<open>=path\<close>, \<open>k=\<close> and \<open>a=b=c\<close> of the claim are
  the instances of the companion theorem.
\<close>

theorem parseFileName_cases:
  "(CHR ''='' \<notin> set source \<longrightarrow> parseFileName source = Inr (Base source, source)) \<and>
   (CHR ''='' \<notin> set key \<and> CHR ''='' \<notin> set fn \<longrightarrow>
      parseFileName (key @ ''='' @ fn) =
        (if key = [] then Inl (New (''key name for file path '' @ fn @ '' missing''))
         else if fn = [] then Inl (New (''file path for key name '' @ key @ '' missing''))
         else Inr (key, fn))) \<and>
   (1 < count_list source CHR ''='' \<longrightarrow>
      parseFileName source =
        Inl (New (''key names or file paths cannot contain '' @ [CHR 0x27, CHR ''='', CHR 0x27])))"
proof (intro conjI impI)
  assume "CHR ''='' \<notin> set source"
  then show "parseFileName source = Inr (Base source, source)"
    by (simp add: parseFileName_def Split_none)
next
  assume a: "CHR ''='' \<notin> set key \<and> CHR ''='' \<notin> set fn"
  then have s: "Split (key @ ''='' @ fn) CHR ''='' = [key, fn]"
    using Split_one [of "CHR ''=''" key fn] by simp
  show "parseFileName (key @ ''='' @ fn) =
        (if key = [] then Inl (New (''key name for file path '' @ fn @ '' missing''))
         else if fn = [] then Inl (New (''file path for key name '' @ key @ '' missing''))
         else Inr (key, fn))"
    unfolding parseFileName_def s Let_def
    using TrimPrefix_eq [of fn] TrimSuffix_eq [of key] by auto
next
  assume "1 < count_list source CHR ''=''"
  then show "parseFileName source =
        Inl (New (''key names or file paths cannot contain '' @ [CHR 0x27, CHR ''='', CHR 0x27]))"
    by (simp add: parseFileName_def length_Split Let_def)
qed

theorem parseFileName_cases_witness:
  "parseFileName ''a/b/file.txt'' = Inr (''file.txt'', ''a/b/file.txt'') \<and>
   parseFileName ''k=path/to/f'' = Inr (''k'', ''path/to/f'') \<and>
   parseFileName ''=path'' = Inl (New ''key name for file path path missing'') \<and>
   parseFileName ''k='' = Inl (New ''file path for key name k missing'') \<and>
   parseFileName ''a=b=c'' =
     Inl (New (''key names or file paths cannot contain '' @ [CHR 0x27, CHR ''='', CHR 0x27]))"
proof -
  have b: "Base ''a/b/file.txt'' = ''file.txt''"
    by (simp add: Base_def lastElement_def stripTrailingSlashes.simps)
  show ?thesis
    using parseFileName_cases [of "''a/b/file.txt''" "''k''" "''path/to/f''"]
      parseFileName_cases [of "''a=b=c''" "[]" "''path''"]
      parseFileName_cases [of "''a=b=c''" "''k''" "[]"]
    by (simp add: b)
qed

section \<open>Dotenv lines\<close>

text \<open>
  Claim C10, as the code has it. A line of valid UTF-8 whose text after left-trimming is
  \<open>key=val\<close>, with no \<open>=\<close> in \<open>key\<close> and not starting with \<open>#\<close>, is accepted, and it
  stores the encoding of \<open>val\<close> under \<open>key\<close>; \<open>key\<close> and \<open>val\<close> may be empty. So
  \<open>K=\<close> stores the encoding of the empty byte string under \<open>K\<close>, and \<open>=v\<close> stores the
  encoding of \<open>v\<close> under the empty key.
\<close>

theorem dotenv_line_with_equals_accepted:
  assumes "Valid line" and "TrimLeftFunc line IsSpace = key @ ''='' @ val"
    and "CHR ''='' \<notin> set key" and "hd (key @ ''='' @ val) \<noteq> CHR ''#''"
  shows "parseDotEnvLine line data = (None, data(key \<mapsto> EncodeToString val))"
  using parseDotEnvLine_pair [OF assms(1,2) _ assms(4), of data]
    split_at_first [OF assms(3), of val]
  by simp

theorem dotenv_line_with_equals_accepted_witness:
  "parseDotEnvLine ''K='' Map.empty = (None, [''K'' \<mapsto> []]) \<and>
   parseDotEnvLine ''=v'' Map.empty = (None, [[] \<mapsto> ''dg=='']) \<and>
   parseDotEnvLine ''  K=v'' Map.empty = (None, [''K'' \<mapsto> ''dg==''])"
proof -
  have a: "parseDotEnvLine ''K='' Map.empty = (None, [''K'' \<mapsto> EncodeToString []])"
    using dotenv_line_with_equals_accepted [of "''K=''" "''K''" "[]" Map.empty]
    by (simp add: byte_def IsSpace_def)
  have b: "parseDotEnvLine ''=v'' Map.empty = (None, [[] \<mapsto> EncodeToString ''v''])"
    using dotenv_line_with_equals_accepted [of "''=v''" "[]" "''v''" Map.empty]
    by (simp add: byte_def IsSpace_def)
  have c: "parseDotEnvLine ''  K=v'' Map.empty = (None, [''K'' \<mapsto> EncodeToString ''v''])"
    using dotenv_line_with_equals_accepted [of "''  K=v''" "''K''" "''v''" Map.empty]
    by (simp add: byte_def IsSpace_def)
  show ?thesis unfolding a b c by (simp add: eval_defs)
qed

text \<open>
  Claim C10 as stated has no condition on the bytes of the line: the line \<open>K=\<close> followed by
  the byte \<open>0xFF\<close> is non-blank after trimming, is no comment and contains \<open>=\<close>, and it
  is rejected by the check of \<open>utf8.Valid\<close> that comes first.
\<close>

theorem dotenv_line_invalid_utf8_counterexample:
  "TrimLeftFunc (''K='' @ [CHR 0xFF]) IsSpace = ''K='' @ [CHR 0xFF] \<and>
   CHR ''='' \<in> set (''K='' @ [CHR 0xFF]) \<and>
   parseDotEnvLine (''K='' @ [CHR 0xFF]) Map.empty
     = (Some (New ''invalid utf8 sequence''), Map.empty)"
  by (simp add: parseDotEnvLine_def byte_def IsSpace_def first_def)

text \<open>
  Claim C4, as the code has it. For a token \<open>line\<close> of the scanner and its text \<open>t\<close> after
  left-trimming: a line that is not valid UTF-8 fails, whatever it contains; a valid line
  whose \<open>t\<close> is empty or starts with \<open>#\<close> leaves the map as it is; a valid line whose \<open>t\<close>
  has no \<open>=\<close> fails with a message that ends in \<open>t\<close>, the text after trimming; a valid
  line whose \<open>t\<close> is \<open>key=val\<close> stores the encoding of \<open>val\<close> under \<open>key\<close>, both read
  from \<open>t\<close>. For the document: the tokens are scanned from the content without its byte
  order mark. When token \<open>i\<close> (counted from 0) is the first that fails, the error of the
  document is that error wrapped with \<open>line i\<close>, and the map holds what the \<open>i\<close> tokens
  before it stored, in order. When no token fails, the error is that of the scanner and
  the map holds what all the tokens stored, in order: a valid token \<open>k=v\<close> leaves the
  encoding of \<open>v\<close> under \<open>k\<close> unless a later token stores under \<open>k\<close>, and a key under
  which no token stores holds what it held before.
\<close>

theorem dotenv_rules:
  "(\<not> Valid line \<longrightarrow>
      parseDotEnvLine line data = (Some (New ''invalid utf8 sequence''), data)) \<and>
   (Valid line \<and> TrimLeftFunc line IsSpace = t \<and> (t = [] \<or> hd t = CHR ''#'') \<longrightarrow>
      parseDotEnvLine line data = (None, data)) \<and>
   (Valid line \<and> TrimLeftFunc line IsSpace = t \<and> t \<noteq> [] \<and> hd t \<noteq> CHR ''#'' \<and>
    CHR ''='' \<notin> set t \<longrightarrow>
      parseDotEnvLine line data = (Some (New (''requires value: '' @ t)), data)) \<and>
   (Valid line \<and> TrimLeftFunc line IsSpace = key @ ''='' @ val \<and> CHR ''='' \<notin> set key \<and>
    hd (key @ ''='' @ val) \<noteq> CHR ''#'' \<longrightarrow>
      parseDotEnvLine line data = (None, data(key \<mapsto> EncodeToString val))) \<and>
   (scan (SkipOnly content) [] = (tokens, scanErr) \<and> i < length tokens \<and>
    (\<forall>j<i. fst (parseDotEnvLine (tokens ! j) Map.empty) = None) \<and>
    fst (parseDotEnvLine (tokens ! i) Map.empty) = Some err \<longrightarrow>
      parseDotEnvContent content data =
        (Some (Wrapf err (''line '' @ fmt_d i)),
         foldl (\<lambda>d line. snd (parseDotEnvLine line d)) data (take i tokens)) \<and>
      Error (Wrapf err (''line '' @ fmt_d i)) = ''line '' @ fmt_d i @ '': '' @ Error err) \<and>
   (scan (SkipOnly content) [] = (tokens, scanErr) \<and>
    (\<forall>j<length tokens. fst (parseDotEnvLine (tokens ! j) Map.empty) = None) \<longrightarrow>
      parseDotEnvContent content data =
        (scanErr, foldl (\<lambda>d line. snd (parseDotEnvLine line d)) data tokens)) \<and>
   (scan (SkipOnly content) [] = (tokens, scanErr) \<and>
    (\<forall>j<length tokens. fst (parseDotEnvLine (tokens ! j) Map.empty) = None) \<and>
    m < length tokens \<and> Valid (tokens ! m) \<and>
    TrimLeftFunc (tokens ! m) IsSpace = k @ ''='' @ v \<and> CHR ''='' \<notin> set k \<and>
    hd (k @ ''='' @ v) \<noteq> CHR ''#'' \<and>
    (\<forall>l. m < l \<and> l < length tokens \<longrightarrow>
         snd (parseDotEnvLine (tokens ! l) Map.empty) k = None) \<longrightarrow>
      snd (parseDotEnvContent content data) k = Some (EncodeToString v)) \<and>
   (scan (SkipOnly content) [] = (tokens, scanErr) \<and>
    (\<forall>j<length tokens. fst (parseDotEnvLine (tokens ! j) Map.empty) = None) \<and>
    (\<forall>l<length tokens. snd (parseDotEnvLine (tokens ! l) Map.empty) k = None) \<longrightarrow>
      snd (parseDotEnvContent content data) k = data k) \<and>
   SkipOnly (CHR 0xEF # CHR 0xBB # CHR 0xBF # content) = content"
proof (intro conjI impI)
  assume "\<not> Valid line"
  then show "parseDotEnvLine line data = (Some (New ''invalid utf8 sequence''), data)"
    by (rule parseDotEnvLine_invalid)
next
  assume "Valid line \<and> TrimLeftFunc line IsSpace = t \<and> (t = [] \<or> hd t = CHR ''#'')"
  then show "parseDotEnvLine line data = (None, data)"
    using parseDotEnvLine_skip by blast
next
  assume "Valid line \<and> TrimLeftFunc line IsSpace = t \<and> t \<noteq> [] \<and> hd t \<noteq> CHR ''#'' \<and>
    CHR ''='' \<notin> set t"
  then show "parseDotEnvLine line data = (Some (New (''requires value: '' @ t)), data)"
    using parseDotEnvLine_novalue by blast
next
  assume a: "Valid line \<and> TrimLeftFunc line IsSpace = key @ ''='' @ val \<and>
    CHR ''='' \<notin> set key \<and> hd (key @ ''='' @ val) \<noteq> CHR ''#''"
  then have "parseDotEnvLine line data =
      (None, data(takeWhile (\<lambda>c. c \<noteq> CHR ''='') (key @ ''='' @ val) \<mapsto>
         EncodeToString (tl (dropWhile (\<lambda>c. c \<noteq> CHR ''='') (key @ ''='' @ val)))))"
    using parseDotEnvLine_pair [of line "key @ ''='' @ val" data] by simp
  then show "parseDotEnvLine line data = (None, data(key \<mapsto> EncodeToString val))"
    using a split_at_first [of "CHR ''=''" key val] by simp
next
  assume a: "scan (SkipOnly content) [] = (tokens, scanErr) \<and> i < length tokens \<and>
    (\<forall>j<i. fst (parseDotEnvLine (tokens ! j) Map.empty) = None) \<and>
    fst (parseDotEnvLine (tokens ! i) Map.empty) = Some err"
  then have "parseDotEnvLines tokens 0 data =
      (Some (Wrapf err (''line '' @ fmt_d (0 + i))),
       foldl (\<lambda>d line. snd (parseDotEnvLine line d)) data (take i tokens))"
    using parseDotEnvLines_fold_fail [of i tokens err 0 data] by blast
  then show "parseDotEnvContent content data =
        (Some (Wrapf err (''line '' @ fmt_d i)),
         foldl (\<lambda>d line. snd (parseDotEnvLine line d)) data (take i tokens))"
    using a by (simp add: parseDotEnvContent_def)
next
  show "Error (Wrapf err (''line '' @ fmt_d i)) = ''line '' @ fmt_d i @ '': '' @ Error err"
    by simp
next
  assume a: "scan (SkipOnly content) [] = (tokens, scanErr) \<and>
    (\<forall>j<length tokens. fst (parseDotEnvLine (tokens ! j) Map.empty) = None)"
  then show "parseDotEnvContent content data =
        (scanErr, foldl (\<lambda>d line. snd (parseDotEnvLine line d)) data tokens)"
    using parseDotEnvLines_fold_pass [of tokens 0 data]
    by (simp add: parseDotEnvContent_def)
next
  assume a: "scan (SkipOnly content) [] = (tokens, scanErr) \<and>
    (\<forall>j<length tokens. fst (parseDotEnvLine (tokens ! j) Map.empty) = None) \<and>
    m < length tokens \<and> Valid (tokens ! m) \<and>
    TrimLeftFunc (tokens ! m) IsSpace = k @ ''='' @ v \<and> CHR ''='' \<notin> set k \<and>
    hd (k @ ''='' @ v) \<noteq> CHR ''#'' \<and>
    (\<forall>l. m < l \<and> l < length tokens \<longrightarrow>
         snd (parseDotEnvLine (tokens ! l) Map.empty) k = None)"
  let ?bs = "map (\<lambda>line. snd (parseDotEnvLine line Map.empty)) tokens"
  have whole: "snd (parseDotEnvContent content data) = foldl (++) data ?bs"
    using a parseDotEnvLines_fold_pass [of tokens 0 data] fold_lines_as_map_add [of data tokens]
    by (simp add: parseDotEnvContent_def)
  have "parseDotEnvLine (tokens ! m) Map.empty =
      (None, Map.empty(takeWhile (\<lambda>c. c \<noteq> CHR ''='') (k @ ''='' @ v) \<mapsto>
         EncodeToString (tl (dropWhile (\<lambda>c. c \<noteq> CHR ''='') (k @ ''='' @ v)))))"
    using a parseDotEnvLine_pair [of "tokens ! m" "k @ ''='' @ v" Map.empty] by simp
  then have here: "snd (parseDotEnvLine (tokens ! m) Map.empty) k = Some (EncodeToString v)"
    using a split_at_first [of "CHR ''=''" k v] by simp
  have m: "m < length ?bs" using a by simp
  have at: "?bs ! m = snd (parseDotEnvLine (tokens ! m) Map.empty)" using a by simp
  have later: "\<forall>l. m < l \<and> l < length ?bs \<longrightarrow> (?bs ! l) k = None"
    using a by simp
  show "snd (parseDotEnvContent content data) k = Some (EncodeToString v)"
    unfolding whole using foldl_map_add_last [OF m at here later] .
next
  assume a: "scan (SkipOnly content) [] = (tokens, scanErr) \<and>
    (\<forall>j<length tokens. fst (parseDotEnvLine (tokens ! j) Map.empty) = None) \<and>
    (\<forall>l<length tokens. snd (parseDotEnvLine (tokens ! l) Map.empty) k = None)"
  have whole: "snd (parseDotEnvContent content data) =
      foldl (++) data (map (\<lambda>line. snd (parseDotEnvLine line Map.empty)) tokens)"
    using a parseDotEnvLines_fold_pass [of tokens 0 data] fold_lines_as_map_add [of data tokens]
    by (simp add: parseDotEnvContent_def)
  have "\<forall>line\<in>set tokens. snd (parseDotEnvLine line Map.empty) k = None"
    using a by (auto simp: in_set_conv_nth)
  then show "snd (parseDotEnvContent content data) k = data k"
    unfolding whole
    using foldl_map_add_absent [of tokens "\<lambda>line. snd (parseDotEnvLine line Map.empty)" k data]
    by simp
next
  show "SkipOnly (CHR 0xEF # CHR 0xBB # CHR 0xBF # content) = content"
    by (rule SkipOnly_utf8_bom)
qed

theorem dotenv_rules_witness:
  "parseDotEnvLine (CHR ''#'' # [CHR 0xFF]) Map.empty
     = (Some (New ''invalid utf8 sequence''), Map.empty) \<and>
   parseDotEnvLine '' # c'' Map.empty = (None, Map.empty) \<and>
   parseDotEnvLine ''  B'' Map.empty = (Some (New ''requires value: B''), Map.empty) \<and>
   parseDotEnvLine ''  K=v=w'' Map.empty = (None, [''K'' \<mapsto> ''dj13'']) \<and>
   parseDotEnvContent dotenvDoc Map.empty
     = (Some (Wrapf (New ''requires value: B'') ''line 3''), [''A'' \<mapsto> ''MQ=='']) \<and>
   Error (Wrapf (New ''requires value: B'') ''line 3'') = ''line 3: requires value: B'' \<and>
   parseDotEnvContent ''A=1'' Map.empty = (None, [''A'' \<mapsto> ''MQ=='']) \<and>
   snd (parseDotEnvContent threePairsDoc Map.empty) ''B'' = Some ''Mg=='' \<and>
   snd (parseDotEnvContent threePairsDoc Map.empty) ''A'' = Some ''Mw=='' \<and>
   snd (parseDotEnvContent threePairsDoc Map.empty) ''x'' = None"
proof -
  have f3: "fmt_d 3 = ''3''"
    by (simp add: fmt_d.simps digit_def)
  have l1: "parseDotEnvLine (CHR ''#'' # [CHR 0xFF]) Map.empty
     = (Some (New ''invalid utf8 sequence''), Map.empty)"
    using dotenv_rules [where line = "CHR ''#'' # [CHR 0xFF]" and data = Map.empty,
        THEN conjunct1]
    by (simp add: byte_def first_def)
  have l2: "parseDotEnvLine '' # c'' Map.empty = (None, Map.empty)"
    using dotenv_rules [where line = "'' # c''" and data = Map.empty and t = "''# c''",
        THEN conjunct2, THEN conjunct1]
    by (simp add: byte_def IsSpace_def)
  have l3: "parseDotEnvLine ''  B'' Map.empty = (Some (New ''requires value: B''), Map.empty)"
    using dotenv_rules [where line = "''  B''" and data = Map.empty and t = "''B''",
        THEN conjunct2, THEN conjunct2, THEN conjunct1]
    by (simp add: byte_def IsSpace_def)
  have l4: "parseDotEnvLine ''  K=v=w'' Map.empty = (None, [''K'' \<mapsto> EncodeToString ''v=w''])"
    using dotenv_rules [where line = "''  K=v=w''" and data = Map.empty and key = "''K''"
        and val = "''v=w''", THEN conjunct2, THEN conjunct2, THEN conjunct2, THEN conjunct1]
    by (simp add: byte_def IsSpace_def)
  have pre: "\<forall>j<3. fst (parseDotEnvLine ([''A=1'', [], '' # c'', ''  B'', ''C=3''] ! j) Map.empty) = None"
    by (simp add: parseDotEnvLine_unfold eval_defs numeral_3_eq_3 less_Suc_eq)
  have t3: "take 3 [''A=1'', [], '' # c'', ''  B'', ''C=3''] = [''A=1'', [], '' # c'']"
    by (simp add: numeral_3_eq_3)
  have fold3: "foldl (\<lambda>d line. snd (parseDotEnvLine line d)) Map.empty [''A=1'', [], '' # c'']
      = [''A'' \<mapsto> ''MQ=='']"
    by (simp add: parseDotEnvLine_unfold eval_defs)
  have c1: "parseDotEnvContent dotenvDoc Map.empty
     = (Some (Wrapf (New ''requires value: B'') ''line 3''), [''A'' \<mapsto> ''MQ==''])"
    using dotenv_rules [where content = dotenvDoc and data = Map.empty
        and tokens = "[''A=1'', [], '' # c'', ''  B'', ''C=3'']" and scanErr = None and i = 3
        and err = "New ''requires value: B''",
        THEN conjunct2, THEN conjunct2, THEN conjunct2, THEN conjunct2, THEN conjunct1]
      scan_dotenvDoc pre l3
    by (simp add: f3 t3 fold3 del: foldl_Cons)
  have s2: "scan (SkipOnly ''A=1'') [] = ([''A=1''], None)"
    by (simp add: SkipOnly_def byte_def MaxScanTokenSize_def dropCR_def)
  have p2: "\<forall>j<length [''A=1'']. fst (parseDotEnvLine ([''A=1''] ! j) Map.empty) = None"
    by (simp add: parseDotEnvLine_unfold eval_defs)
  have fold1: "foldl (\<lambda>d line. snd (parseDotEnvLine line d)) Map.empty [''A=1'']
      = [''A'' \<mapsto> ''MQ=='']"
    by (simp add: parseDotEnvLine_unfold eval_defs)
  have c2: "parseDotEnvContent ''A=1'' Map.empty = (None, [''A'' \<mapsto> ''MQ==''])"
    using dotenv_rules [where content = "''A=1''" and data = Map.empty
        and tokens = "[''A=1'']" and scanErr = None,
        THEN conjunct2, THEN conjunct2, THEN conjunct2, THEN conjunct2, THEN conjunct2,
        THEN conjunct1] s2 p2
    by (simp add: fold1 del: foldl_Cons)
  have laterB: "\<forall>l. 1 < l \<and> l < length [''A=1'', ''  B=2'', ''#x'', ''A=3''] \<longrightarrow>
      snd (parseDotEnvLine ([''A=1'', ''  B=2'', ''#x'', ''A=3''] ! l) Map.empty) ''B'' = None"
    by (auto simp: parseDotEnvLine_unfold eval_defs less_Suc_eq numeral_eq_Suc)
  have c3: "snd (parseDotEnvContent threePairsDoc Map.empty) ''B'' = Some (EncodeToString ''2'')"
    using dotenv_rules [where content = threePairsDoc and data = Map.empty
        and tokens = "[''A=1'', ''  B=2'', ''#x'', ''A=3'']" and scanErr = None and m = 1
        and k = "''B''" and v = "''2''",
        THEN conjunct2, THEN conjunct2, THEN conjunct2, THEN conjunct2, THEN conjunct2,
        THEN conjunct2, THEN conjunct1] scan_threePairsDoc threePairs_pass laterB
    by (simp add: byte_def IsSpace_def)
  have laterA: "\<forall>l. 3 < l \<and> l < length [''A=1'', ''  B=2'', ''#x'', ''A=3''] \<longrightarrow>
      snd (parseDotEnvLine ([''A=1'', ''  B=2'', ''#x'', ''A=3''] ! l) Map.empty) ''A'' = None"
    by auto
  have c4: "snd (parseDotEnvContent threePairsDoc Map.empty) ''A'' = Some (EncodeToString ''3'')"
    using dotenv_rules [where content = threePairsDoc and data = Map.empty
        and tokens = "[''A=1'', ''  B=2'', ''#x'', ''A=3'']" and scanErr = None and m = 3
        and k = "''A''" and v = "''3''",
        THEN conjunct2, THEN conjunct2, THEN conjunct2, THEN conjunct2, THEN conjunct2,
        THEN conjunct2, THEN conjunct1] scan_threePairsDoc threePairs_pass laterA
    by (simp add: byte_def IsSpace_def)
  have nox: "\<forall>l<length [''A=1'', ''  B=2'', ''#x'', ''A=3''].
      snd (parseDotEnvLine ([''A=1'', ''  B=2'', ''#x'', ''A=3''] ! l) Map.empty) ''x'' = None"
    by (simp add: parseDotEnvLine_unfold eval_defs less_Suc_eq)
  have c5: "snd (parseDotEnvContent threePairsDoc Map.empty) ''x'' = None"
    using dotenv_rules [where content = threePairsDoc and data = Map.empty
        and tokens = "[''A=1'', ''  B=2'', ''#x'', ''A=3'']" and scanErr = None
        and k = "''x''",
        THEN conjunct2, THEN conjunct2, THEN conjunct2, THEN conjunct2, THEN conjunct2,
        THEN conjunct2, THEN conjunct2, THEN conjunct1] scan_threePairsDoc threePairs_pass nox
    by simp
  show ?thesis unfolding l1 l2 l3 l4 c1 c2 c3 c4 c5 by (simp add: eval_defs)
qed

text \<open>
  Claim C4 as stated reads the key and the text of the message from the raw line. The raw
  line of two spaces and \<open>K=v\<close> stores under \<open>K\<close>, and nothing under the text before
  its \<open>=\<close>; the raw line of two spaces and \<open>x\<close> fails with a message that does not
  include the raw line.
\<close>

theorem dotenv_untrimmed_text_counterexample:
  "snd (parseDotEnvLine ''  K=v'' Map.empty) ''  K'' = None \<and>
   snd (parseDotEnvLine ''  K=v'' Map.empty) ''K'' = Some ''dg=='' \<and>
   fst (parseDotEnvContent ''  x'' Map.empty) = Some (Wrapf (New ''requires value: x'') ''line 0'') \<and>
   Error (Wrapf (New ''requires value: x'') ''line 0'') = ''line 0: requires value: x'' \<and>
   \<not> Contains ''line 0: requires value: x'' ''  x''"
proof -
  have l: "parseDotEnvLine ''  K=v'' Map.empty = (None, [''K'' \<mapsto> ''dg==''])"
    by (simp add: parseDotEnvLine_unfold eval_defs)
  have s: "scan (SkipOnly ''  x'') [] = ([''  x''], None)"
    by (simp add: SkipOnly_def byte_def MaxScanTokenSize_def dropCR_def)
  have f0: "fmt_d 0 = ''0''"
    by (simp add: fmt_d.simps digit_def)
  have x: "parseDotEnvLine ''  x'' Map.empty = (Some (New ''requires value: x''), Map.empty)"
    by (simp add: parseDotEnvLine_unfold eval_defs)
  have c: "fst (parseDotEnvContent ''  x'' Map.empty)
             = Some (Wrapf (New ''requires value: x'') ''line 0'')"
    by (simp add: parseDotEnvContent_def s x f0)
  show ?thesis using l c by (simp add: HasPrefix_def)
qed

section \<open>Loading the generator document\<close>

text \<open>
  Claim C6. When the document that is read and decoded has an \<open>apiVersion\<close> or a \<open>kind\<close>
  other than the two constants, or an empty \<open>metadata.name\<close>, \<open>readInput\<close> fails with the
  error of the violated rule, and so does the whole run; the log of the run then holds
  the path of the document and nothing else: no source was read.
\<close>

theorem invalid_descriptor_rejected_before_sources:
  assumes "files W fn = Inr content" and "yaml_Unmarshal_input W content = Inr input"
    and "APIVersion (typeMeta input) \<noteq> apiVersion \<or> Kind (typeMeta input) \<noteq> kind \<or>
         Name (metadata input) = []"
  shows "readInput W fn lg =
           (Inl (if APIVersion (typeMeta input) \<noteq> apiVersion \<or> Kind (typeMeta input) \<noteq> kind
                 then New (''input must be apiVersion '' @ apiVersion @ '', kind '' @ kind)
                 else New ''input must contain metadata.name value''), lg @ [fn]) \<and>
         processSopsSecretGenerator W fn lg =
           (Inl (if APIVersion (typeMeta input) \<noteq> apiVersion \<or> Kind (typeMeta input) \<noteq> kind
                 then New (''input must be apiVersion '' @ apiVersion @ '', kind '' @ kind)
                 else New ''input must contain metadata.name value''), lg @ [fn])"
proof -
  have r: "readInput W fn lg =
           (Inl (if APIVersion (typeMeta input) \<noteq> apiVersion \<or> Kind (typeMeta input) \<noteq> kind
                 then New (''input must be apiVersion '' @ apiVersion @ '', kind '' @ kind)
                 else New ''input must contain metadata.name value''), lg @ [fn])"
    using assms by (auto simp: readInput_def ReadFile_def)
  then show ?thesis
    by (simp add: processSopsSecretGenerator_def)
qed

theorem invalid_descriptor_rejected_before_sources_witness:
  "EnvSources wrongKindGenerator = [''a.env''] \<and> FileSources wrongKindGenerator = [''b.bin''] \<and>
   processSopsSecretGenerator exampleWorld ''wrongkind.yaml'' [] =
     (Inl (New ''input must be apiVersion kustomize.meiqia.com/v1beta1, kind SopsSecretGenerator''),
      [''wrongkind.yaml'']) \<and>
   EnvSources namelessGenerator = [''a.env''] \<and> FileSources namelessGenerator = [''b.bin''] \<and>
   processSopsSecretGenerator exampleWorld ''nameless.yaml'' [] =
     (Inl (New ''input must contain metadata.name value''), [''nameless.yaml''])"
proof -
  have a: "processSopsSecretGenerator exampleWorld ''wrongkind.yaml'' [] =
     (Inl (New ''input must be apiVersion kustomize.meiqia.com/v1beta1, kind SopsSecretGenerator''),
      [''wrongkind.yaml''])"
    using invalid_descriptor_rejected_before_sources
      [of exampleWorld "''wrongkind.yaml''" "''wrong kind''" wrongKindGenerator "[]"]
    by (simp add: world_defs)
  have b: "processSopsSecretGenerator exampleWorld ''nameless.yaml'' [] =
     (Inl (New ''input must contain metadata.name value''), [''nameless.yaml''])"
    using invalid_descriptor_rejected_before_sources
      [of exampleWorld "''nameless.yaml''" "''nameless''" namelessGenerator "[]"]
    by (simp add: world_defs)
  show ?thesis unfolding a b by (simp add: world_defs)
qed

section \<open>Formats of env sources and file sources\<close>

text \<open>
  Claim C5, as the code has it. An env source whose path classifies as \<open>binary\<close> never
  resolves: \<open>parseEnvSource\<close> reads the file and calls the decryption first, so it fails
  with the error of the read when the file cannot be read, with the error of the
  decryption when that fails, and with the format error only when both succeed. A file
  source of any format, once its specification is parsed, its file read and decrypted,
  stores the encoding of the whole decrypted payload under the resolved key.
\<close>

theorem format_asymmetry:
  "(formatForPath source = ''binary'' \<longrightarrow>
      fst (parseEnvSource W source data lg) \<noteq> None) \<and>
   (formatForPath source = ''binary'' \<and> files W source = Inl err \<longrightarrow>
      parseEnvSource W source data lg = (Some err, data, lg @ [source])) \<and>
   (formatForPath source = ''binary'' \<and> files W source = Inr content \<and>
    sopsdecrypt_Data W content ''binary'' = Inl err \<longrightarrow>
      parseEnvSource W source data lg = (Some err, data, lg @ [source])) \<and>
   (formatForPath source = ''binary'' \<and> files W source = Inr content \<and>
    sopsdecrypt_Data W content ''binary'' = Inr decrypted \<longrightarrow>
      parseEnvSource W source data lg =
        (Some (New ''unknown file format, use dotenv, yaml or json''), data, lg @ [source])) \<and>
   (parseFileName source = Inr (key, fn) \<and> files W fn = Inr content \<and>
    sopsdecrypt_Data W content (formatForPath source) = Inr decrypted \<longrightarrow>
      parseFileSource W source data lg =
        (None, data(key \<mapsto> EncodeToString decrypted), lg @ [fn]))"
  by (auto simp: parseEnvSource_def parseFileSource_def ReadFile_def Let_def
      split: sum.splits)

theorem format_asymmetry_witness:
  "formatForPath ''missing.bin'' = ''binary'' \<and>
   parseEnvSource exampleWorld ''missing.bin'' Map.empty [] =
     (Some (New ''open missing.bin: no such file or directory''), Map.empty, [''missing.bin'']) \<and>
   formatForPath ''plain.txt'' = ''binary'' \<and>
   parseEnvSource exampleWorld ''plain.txt'' Map.empty [] =
     (Some (New ''sops metadata not found''), Map.empty, [''plain.txt'']) \<and>
   formatForPath ''b.bin'' = ''binary'' \<and>
   parseEnvSource exampleWorld ''b.bin'' Map.empty [] =
     (Some (New ''unknown file format, use dotenv, yaml or json''), Map.empty, [''b.bin'']) \<and>
   parseFileSource exampleWorld ''b.bin'' Map.empty [] =
     (None, [''b.bin'' \<mapsto> ''AQI=''], [''b.bin''])"
proof -
  have a: "parseEnvSource exampleWorld ''missing.bin'' Map.empty [] =
     (Some (New ''open missing.bin: no such file or directory''), Map.empty, [''missing.bin''])"
    using format_asymmetry [where source = "''missing.bin''" and W = exampleWorld
        and err = "New ''open missing.bin: no such file or directory''"
        and data = Map.empty and lg = "[]", THEN conjunct2, THEN conjunct1] fmt_missing
    by (simp add: exampleWorld_def)
  have b: "parseEnvSource exampleWorld ''plain.txt'' Map.empty [] =
     (Some (New ''sops metadata not found''), Map.empty, [''plain.txt''])"
    using format_asymmetry [where source = "''plain.txt''" and W = exampleWorld
        and err = "New ''sops metadata not found''" and content = "''not encrypted''"
        and data = Map.empty and lg = "[]", THEN conjunct2, THEN conjunct2, THEN conjunct1] fmt_txt
    by (simp add: exampleWorld_def)
  have c: "parseEnvSource exampleWorld ''b.bin'' Map.empty [] =
     (Some (New ''unknown file format, use dotenv, yaml or json''), Map.empty, [''b.bin''])"
    using format_asymmetry [where source = "''b.bin''" and W = exampleWorld
        and content = "[CHR 0x01, CHR 0x02]" and decrypted = "[CHR 0x01, CHR 0x02]"
        and data = Map.empty and lg = "[]",
        THEN conjunct2, THEN conjunct2, THEN conjunct2, THEN conjunct1]
      fmt_bin
    by (simp add: exampleWorld_def)
  have d: "parseFileSource exampleWorld ''b.bin'' Map.empty [] =
     (None, [''b.bin'' \<mapsto> EncodeToString [CHR 0x01, CHR 0x02]], [''b.bin''])"
    using format_asymmetry [where source = "''b.bin''" and W = exampleWorld
        and key = "''b.bin''" and fn = "''b.bin''"
        and content = "[CHR 0x01, CHR 0x02]" and decrypted = "[CHR 0x01, CHR 0x02]"
        and data = Map.empty and lg = "[]",
        THEN conjunct2, THEN conjunct2, THEN conjunct2, THEN conjunct2]
      fmt_bin parseFileName_bbin
    by (simp add: exampleWorld_def)
  show ?thesis
    unfolding a b c d by (simp add: fmt_missing fmt_txt fmt_bin eval_defs)
qed

text \<open>
  Claim C5 as stated gives the format error to every env source that classifies as
  \<open>binary\<close>. A binary path with no file fails with the error of the read, and a binary
  file that is not encrypted fails with the error of the decryption: that error, wrapped,
  is the error of the run.
\<close>

theorem binary_env_source_counterexample:
  "formatForPath ''missing.bin'' = ''binary'' \<and>
   fst (parseEnvSource exampleWorld ''missing.bin'' Map.empty []) =
     Some (New ''open missing.bin: no such file or directory'') \<and>
   formatForPath ''plain.txt'' = ''binary'' \<and>
   fst (parseEnvSource exampleWorld ''plain.txt'' Map.empty []) =
     Some (New ''sops metadata not found'') \<and>
   fst (parseInput exampleWorld (exampleGenerator \<lparr> EnvSources := [''plain.txt''] \<rparr>) []) =
     Inl (Wrapf (New ''sops metadata not found'') ''env source plain.txt'')"
  by (simp add: fmt_missing fmt_txt parseInput_def parseEnvSource_def ReadFile_def
      exampleWorld_def exampleGenerator_def)

section \<open>Annotations of the generated Secret\<close>

lemma keys_differ: "needsHashKey \<noteq> behaviorKey"
  by (simp add: needsHashKey_def behaviorKey_def)

lemma generateSecret_annotations_eq:
  assumes "generateSecret W g lg = (Inr secret, lg')"
  shows "Annotations (metadata_s secret) k =
           (if k = behaviorKey \<and> Behavior g \<noteq> [] then Some (Behavior g)
            else if k = needsHashKey \<and> \<not> DisableNameSuffixHash g then Some ''true''
            else Annotations (metadata g) k)"
proof (cases "parseInput W g lg")
  case (Pair r l)
  show ?thesis
  proof (cases r)
    case (Inl e)
    then show ?thesis using assms Pair by (simp add: generateSecret_def)
  next
    case (Inr d)
    then show ?thesis
      using assms Pair keys_differ by (auto simp: generateSecret_def Let_def)
  qed
qed

lemma run_pinned:
  "generateSecret exampleWorld pinnedHashGenerator [] =
     (Inr (projr (fst (generateSecret exampleWorld pinnedHashGenerator []))), [])"
  by (simp add: generateSecret_def parseInput_def pinnedHashGenerator_def)

lemma run_explicit:
  "generateSecret exampleWorld explicitBehaviorGenerator [] =
     (Inr (projr (fst (generateSecret exampleWorld explicitBehaviorGenerator []))), [])"
  by (simp add: generateSecret_def parseInput_def explicitBehaviorGenerator_def)

lemma run_nohash:
  "generateSecret exampleWorld noHashGenerator [] =
     (Inr (projr (fst (generateSecret exampleWorld noHashGenerator []))), [])"
  by (simp add: generateSecret_def parseInput_def noHashGenerator_def)

text \<open>
  Claim C7, as the code has it. The annotations of the Secret are the explicit annotations
  of the generator, overwritten at two keys: at the needs-hash key by \<open>true\<close> when
  \<open>disableNameSuffixHash\<close> is false, and at the behavior key by the behavior when that is
  not empty. So needs-hash is \<open>true\<close> when the flag is false, and is what the explicit
  annotations say (absent when they say nothing) when the flag is true; the behavior
  annotation carries the behavior when that is not empty, and is what the explicit
  annotations say otherwise; every explicit annotation under another key is kept.
\<close>

theorem generateSecret_annotations:
  assumes "generateSecret W g lg = (Inr secret, lg')"
  shows "(\<not> DisableNameSuffixHash g \<longrightarrow>
            Annotations (metadata_s secret) needsHashKey = Some ''true'') \<and>
         (DisableNameSuffixHash g \<longrightarrow>
            Annotations (metadata_s secret) needsHashKey = Annotations (metadata g) needsHashKey) \<and>
         (Behavior g \<noteq> [] \<longrightarrow>
            Annotations (metadata_s secret) behaviorKey = Some (Behavior g)) \<and>
         (Behavior g = [] \<longrightarrow>
            Annotations (metadata_s secret) behaviorKey = Annotations (metadata g) behaviorKey) \<and>
         (k \<noteq> needsHashKey \<and> k \<noteq> behaviorKey \<longrightarrow>
            Annotations (metadata_s secret) k = Annotations (metadata g) k)"
  using generateSecret_annotations_eq [OF assms] keys_differ by auto

theorem generateSecret_annotations_witness:
  "Annotations (metadata_s (projr (fst (generateSecret exampleWorld explicitBehaviorGenerator []))))
     needsHashKey = Some ''true'' \<and>
   Annotations (metadata_s (projr (fst (generateSecret exampleWorld explicitBehaviorGenerator []))))
     behaviorKey = Some ''replace'' \<and>
   Annotations (metadata_s (projr (fst (generateSecret exampleWorld explicitBehaviorGenerator []))))
     ''team'' = Some ''core'' \<and>
   Annotations (metadata_s (projr (fst (generateSecret exampleWorld noHashGenerator []))))
     needsHashKey = None \<and>
   Annotations (metadata_s (projr (fst (generateSecret exampleWorld noHashGenerator []))))
     behaviorKey = None"
proof -
  note a = generateSecret_annotations [OF run_explicit, of "''team''"]
  note b = generateSecret_annotations [OF run_nohash, of "''team''"]
  show ?thesis
    using a b
    by (simp add: explicitBehaviorGenerator_def noHashGenerator_def needsHashKey_def behaviorKey_def)
qed

text \<open>
  Claim C7 as stated fails where an explicit annotation uses one of the two keys: with the
  flag true and an explicit needs-hash annotation the annotation is present, and an
  explicit behavior annotation \<open>merge\<close> is not in the output when the behavior is
  \<open>replace\<close>.
\<close>

theorem explicit_annotation_counterexample:
  "DisableNameSuffixHash pinnedHashGenerator \<and>
   \<not> isl (fst (generateSecret exampleWorld pinnedHashGenerator [])) \<and>
   Annotations (metadata_s (projr (fst (generateSecret exampleWorld pinnedHashGenerator []))))
     needsHashKey = Some ''true'' \<and>
   Annotations (metadata explicitBehaviorGenerator) behaviorKey = Some ''merge'' \<and>
   \<not> isl (fst (generateSecret exampleWorld explicitBehaviorGenerator [])) \<and>
   Annotations (metadata_s (projr (fst (generateSecret exampleWorld explicitBehaviorGenerator []))))
     behaviorKey = Some ''replace''"
  by (simp add: generateSecret_def parseInput_def pinnedHashGenerator_def
      explicitBehaviorGenerator_def needsHashKey_def behaviorKey_def)

section \<open>Merging the sources\<close>

text \<open>
  Claim C1. Let every declared source resolve. Then \<open>parseInput\<close> succeeds, whatever keys
  the sources share, and it reads the files in declaration order, the entries of
  \<open>envSources\<close> before those of \<open>fileSources\<close>. When two sources, at the places \<open>i < j\<close>
  of the declaration order, both yield a pair for the key \<open>K\<close>, and no source declared
  after \<open>j\<close> yields one, the final map holds at \<open>K\<close> the value that the later source, the
  one at \<open>j\<close>, yields.
\<close>

theorem last_write_wins:
  assumes "\<forall>d\<in>set (declarationOrder g). failure W d = None"
    and "i < j" and "j < length (declarationOrder g)"
    and "yield W (declarationOrder g ! i) K = Some vi"
    and "yield W (declarationOrder g ! j) K = Some vj"
    and "\<forall>l. j < l \<and> l < length (declarationOrder g) \<longrightarrow> yield W (declarationOrder g ! l) K = None"
  shows "\<exists>data. parseInput W g lg = (Inr data, lg @ concat (map (reads W) (declarationOrder g)))
           \<and> data K = Some vj"
proof -
  let ?bs = "map (yield W) (declarationOrder g)"
  have j: "j < length ?bs" using assms(3) by simp
  have at: "?bs ! j = yield W (declarationOrder g ! j)" using assms(3) by simp
  have later: "\<forall>l. j < l \<and> l < length ?bs \<longrightarrow> (?bs ! l) K = None"
    using assms(6) by simp
  have "(foldl (++) Map.empty ?bs) K = Some vj"
    using foldl_map_add_last [OF j at assms(5) later] .
  then show ?thesis
    using parseInput_all [OF assms(1), of lg] by simp
qed

theorem last_write_wins_witness:
  "yield exampleWorld (FromEnv ''a.env'') ''FOO'' = Some ''YmFy'' \<and>
   yield exampleWorld (FromEnv ''c.yaml'') ''FOO'' = Some ''YmF6'' \<and>
   yield exampleWorld (FromFile ''FOO=b.bin'') ''FOO'' = Some ''AQI='' \<and>
   (\<exists>data. parseInput exampleWorld collidingGenerator [] =
              (Inr data, [''a.env'', ''c.yaml'', ''b.bin'']) \<and> data ''FOO'' = Some ''AQI='') \<and>
   (\<exists>data. parseInput exampleWorld (collidingGenerator \<lparr> FileSources := [] \<rparr>) [] =
              (Inr data, [''a.env'', ''c.yaml'']) \<and> data ''FOO'' = Some ''YmF6'')"
proof -
  have y: "yield exampleWorld (FromEnv ''a.env'') ''FOO'' = Some ''YmFy''"
    "yield exampleWorld (FromEnv ''c.yaml'') ''FOO'' = Some ''YmF6''"
    "yield exampleWorld (FromFile ''FOO=b.bin'') ''FOO'' = Some ''AQI=''"
    "failure exampleWorld (FromEnv ''a.env'') = None"
    "failure exampleWorld (FromEnv ''c.yaml'') = None"
    "failure exampleWorld (FromFile ''FOO=b.bin'') = None"
    "reads exampleWorld (FromEnv ''a.env'') = [''a.env'']"
    "reads exampleWorld (FromEnv ''c.yaml'') = [''c.yaml'']"
    "reads exampleWorld (FromFile ''FOO=b.bin'') = [''b.bin'']"
    using resolve_a_env resolve_c_yaml resolve_FOO_b_bin by simp_all
  have o2: "declarationOrder (collidingGenerator \<lparr> FileSources := [] \<rparr>) =
     [FromEnv ''a.env'', FromEnv ''c.yaml'']"
    by (simp add: declarationOrder_def collidingGenerator_def exampleGenerator_def)
  have a: "\<exists>data. parseInput exampleWorld collidingGenerator [] =
              (Inr data, [''a.env'', ''c.yaml'', ''b.bin'']) \<and> data ''FOO'' = Some ''AQI=''"
    using last_write_wins [of collidingGenerator exampleWorld 0 2 "''FOO''" "''YmFy''" "''AQI=''" "[]"]
    by (simp add: order_colliding y)
  have b: "\<exists>data. parseInput exampleWorld (collidingGenerator \<lparr> FileSources := [] \<rparr>) [] =
              (Inr data, [''a.env'', ''c.yaml'']) \<and> data ''FOO'' = Some ''YmF6''"
    using last_write_wins [of "collidingGenerator \<lparr> FileSources := [] \<rparr>" exampleWorld 0 1
        "''FOO''" "''YmFy''" "''YmF6''" "[]"]
    by (simp add: o2 y)
  show ?thesis using y(1,2,3) a b by blast
qed

section \<open>Stored entries are base64 encodings\<close>

text \<open>
  Claim C2. Every value \<open>V\<close> that a parser takes from decrypted input is stored as
  \<open>EncodeToString V\<close>, the standard padded base64 encoding: the whole payload of a file
  source, the text after the first \<open>=\<close> of a dotenv line, and every value of a YAML or
  JSON document. Every entry of the final map of a run is such an encoding, and decoding
  the encoding of \<open>V\<close> gives back \<open>V\<close>.
\<close>

theorem stored_entry_round_trip:
  "(parseFileName source = Inr (key, fn) \<and> files W fn = Inr content \<and>
    sopsdecrypt_Data W content (formatForPath source) = Inr V \<longrightarrow>
      fst (snd (parseFileSource W source data lg)) key = Some (EncodeToString V)) \<and>
   (Valid line \<and> TrimLeftFunc line IsSpace = key @ ''='' @ V \<and> CHR ''='' \<notin> set key \<and>
    hd (key @ ''='' @ V) \<noteq> CHR ''#'' \<longrightarrow>
      snd (parseDotEnvLine line data) key = Some (EncodeToString V)) \<and>
   (yaml_Unmarshal_kvMap W content = Inr d \<and> d key = Some V \<longrightarrow>
      snd (parseYAMLContent W content data) key = Some (EncodeToString V)) \<and>
   (json_Unmarshal_kvMap W content = Inr d \<and> d key = Some V \<longrightarrow>
      snd (parseJSONContent W content data) key = Some (EncodeToString V)) \<and>
   (parseInput W g lg = (Inr final, lg') \<and> final key = Some entry \<longrightarrow>
      (\<exists>U. entry = EncodeToString U \<and> DecodeString entry = Some U)) \<and>
   DecodeString (EncodeToString V) = Some V"
proof (intro conjI impI)
  assume "parseFileName source = Inr (key, fn) \<and> files W fn = Inr content \<and>
    sopsdecrypt_Data W content (formatForPath source) = Inr V"
  then show "fst (snd (parseFileSource W source data lg)) key = Some (EncodeToString V)"
    by (simp add: parseFileSource_def ReadFile_def)
next
  assume a: "Valid line \<and> TrimLeftFunc line IsSpace = key @ ''='' @ V \<and> CHR ''='' \<notin> set key \<and>
    hd (key @ ''='' @ V) \<noteq> CHR ''#''"
  then have "parseDotEnvLine line data =
      (None, data(takeWhile (\<lambda>c. c \<noteq> CHR ''='') (key @ ''='' @ V) \<mapsto>
         EncodeToString (tl (dropWhile (\<lambda>c. c \<noteq> CHR ''='') (key @ ''='' @ V)))))"
    using parseDotEnvLine_pair [of line "key @ ''='' @ V" data] by simp
  then show "snd (parseDotEnvLine line data) key = Some (EncodeToString V)"
    using a split_at_first [of "CHR ''=''" key V] by simp
next
  assume "yaml_Unmarshal_kvMap W content = Inr d \<and> d key = Some V"
  then show "snd (parseYAMLContent W content data) key = Some (EncodeToString V)"
    by (simp add: parseYAMLContent_def storeEncoded_def map_add_Some_iff)
next
  assume "json_Unmarshal_kvMap W content = Inr d \<and> d key = Some V"
  then show "snd (parseJSONContent W content data) key = Some (EncodeToString V)"
    by (simp add: parseJSONContent_def storeEncoded_def map_add_Some_iff)
next
  assume "parseInput W g lg = (Inr final, lg') \<and> final key = Some entry"
  then obtain U where "entry = EncodeToString U"
    using parseInput_encoded [of W g lg final lg' key entry] by blast
  then show "\<exists>U. entry = EncodeToString U \<and> DecodeString entry = Some U"
    using DecodeString_EncodeToString by blast
next
  show "DecodeString (EncodeToString V) = Some V"
    by (rule DecodeString_EncodeToString)
qed

theorem stored_entry_round_trip_witness:
  "fst (snd (parseFileSource exampleWorld ''b.bin'' Map.empty [])) ''b.bin'' = Some ''AQI='' \<and>
   DecodeString ''AQI='' = Some [CHR 0x01, CHR 0x02] \<and>
   snd (parseDotEnvLine ''FOO=bar'' Map.empty) ''FOO'' = Some ''YmFy'' \<and>
   DecodeString ''YmFy'' = Some ''bar'' \<and>
   snd (parseYAMLContent exampleWorld ''FOO: baz'' Map.empty) ''FOO'' = Some ''YmF6'' \<and>
   DecodeString ''YmF6'' = Some ''baz'' \<and>
   snd (parseJSONContent exampleWorld jsonDoc Map.empty) ''FOO'' = Some ''cXV4'' \<and>
   DecodeString ''cXV4'' = Some ''qux'' \<and>
   (\<exists>U. ''YmFy'' = EncodeToString U \<and> DecodeString ''YmFy'' = Some U)"
proof -
  have enc: "EncodeToString [CHR 0x01, CHR 0x02] = ''AQI=''" "EncodeToString ''bar'' = ''YmFy''"
    "EncodeToString ''baz'' = ''YmF6''" "EncodeToString ''qux'' = ''cXV4''"
    by (simp_all add: eval_defs)
  have f: "fst (snd (parseFileSource exampleWorld ''b.bin'' Map.empty [])) ''b.bin'' =
      Some (EncodeToString [CHR 0x01, CHR 0x02])"
    using stored_entry_round_trip [where source = "''b.bin''" and key = "''b.bin''"
        and fn = "''b.bin''" and W = exampleWorld and content = "[CHR 0x01, CHR 0x02]"
        and V = "[CHR 0x01, CHR 0x02]" and data = Map.empty and lg = "[]", THEN conjunct1]
      fmt_bin parseFileName_bbin
    by (simp add: exampleWorld_def)
  have l: "snd (parseDotEnvLine ''FOO=bar'' Map.empty) ''FOO'' = Some (EncodeToString ''bar'')"
    using stored_entry_round_trip [where line = "''FOO=bar''" and key = "''FOO''"
        and V = "''bar''" and data = Map.empty, THEN conjunct2, THEN conjunct1]
    by (simp add: byte_def IsSpace_def)
  have y: "snd (parseYAMLContent exampleWorld ''FOO: baz'' Map.empty) ''FOO'' =
      Some (EncodeToString ''baz'')"
    using stored_entry_round_trip [where W = exampleWorld and content = "''FOO: baz''"
        and d = "[''FOO'' \<mapsto> ''baz'']" and key = "''FOO''" and V = "''baz''"
        and data = Map.empty, THEN conjunct2, THEN conjunct2, THEN conjunct1]
    by (simp add: exampleWorld_def)
  have j: "snd (parseJSONContent exampleWorld jsonDoc Map.empty) ''FOO'' =
      Some (EncodeToString ''qux'')"
    using stored_entry_round_trip [where W = exampleWorld and content = jsonDoc
        and d = "[''FOO'' \<mapsto> ''qux'']" and key = "''FOO''" and V = "''qux''"
        and data = Map.empty, THEN conjunct2, THEN conjunct2, THEN conjunct2, THEN conjunct1]
    by (simp add: exampleWorld_def)
  have i: "\<exists>U. ''YmFy'' = EncodeToString U \<and> DecodeString ''YmFy'' = Some U"
    using stored_entry_round_trip [where W = exampleWorld and g = exampleGenerator
        and lg = "[]" and final = "[''FOO'' \<mapsto> ''YmFy''] ++ [''b.bin'' \<mapsto> ''AQI='']"
        and lg' = "[''a.env'', ''b.bin'']" and key = "''FOO''" and entry = "''YmFy''",
        THEN conjunct2, THEN conjunct2, THEN conjunct2, THEN conjunct2, THEN conjunct1]
      run_example
    by simp
  have r: "DecodeString (EncodeToString [CHR 0x01, CHR 0x02]) = Some [CHR 0x01, CHR 0x02]"
    "DecodeString (EncodeToString ''bar'') = Some ''bar''"
    "DecodeString (EncodeToString ''baz'') = Some ''baz''"
    "DecodeString (EncodeToString ''qux'') = Some ''qux''"
    using stored_entry_round_trip [where V = "[CHR 0x01, CHR 0x02]", THEN conjunct2,
        THEN conjunct2, THEN conjunct2, THEN conjunct2, THEN conjunct2]
      stored_entry_round_trip [where V = "''bar''", THEN conjunct2,
        THEN conjunct2, THEN conjunct2, THEN conjunct2, THEN conjunct2]
      stored_entry_round_trip [where V = "''baz''", THEN conjunct2,
        THEN conjunct2, THEN conjunct2, THEN conjunct2, THEN conjunct2]
      stored_entry_round_trip [where V = "''qux''", THEN conjunct2,
        THEN conjunct2, THEN conjunct2, THEN conjunct2, THEN conjunct2]
    by blast+
  show ?thesis
    using f l y j i r unfolding enc by blast
qed

section \<open>The first failure ends the run\<close>

lemma failure_env_dotenv:
  assumes "files W s = Inr content" and "formatForPath s = ''dotenv''"
    and "sopsdecrypt_Data W content ''dotenv'' = Inr decrypted"
  shows "failure W (FromEnv s) = fst (parseDotEnvContent decrypted Map.empty)"
  using assms
  by (simp add: failure_def parseEnvSource_def ReadFile_def Let_def split: prod.splits)

text \<open>
  Claim C9, as the code has it. When an env source fails after the env sources before it
  resolved, \<open>parseInput\<close> returns the error of that source wrapped with \<open>env source\<close> and
  the source string, and no map; the log shows that the env sources up to the failing one
  were read and nothing after it, no later env source and no file source. When every
  env source resolves and a file source fails after the file sources before it resolved,
  the error is wrapped with \<open>file source\<close> and the source string, and no later file
  source is read. \<open>generateSecret\<close> and the whole run return the same error and no
  Secret and no output. A dotenv source whose token \<open>i\<close> (counted from 0) is the first
  to fail has the error of that line wrapped with \<open>line i\<close>; a dotenv source whose
  tokens all pass has the error of the scanner as it is, with no line number.
\<close>

theorem first_failure_aborts:
  "(EnvSources g = pre @ s # post \<and> (\<forall>x\<in>set pre. failure W (FromEnv x) = None) \<and>
    failure W (FromEnv s) = Some err \<longrightarrow>
      parseInput W g lg = (Inl (Wrapf err (''env source '' @ s)), lg @ pre @ [s]) \<and>
      Error (Wrapf err (''env source '' @ s)) = ''env source '' @ s @ '': '' @ Error err) \<and>
   ((\<forall>x\<in>set (EnvSources g). failure W (FromEnv x) = None) \<and> FileSources g = pre @ s # post \<and>
    (\<forall>x\<in>set pre. failure W (FromFile x) = None) \<and> failure W (FromFile s) = Some err \<longrightarrow>
      parseInput W g lg =
        (Inl (Wrapf err (''file source '' @ s)),
         lg @ EnvSources g @ concat (map (reads W \<circ> FromFile) (pre @ [s]))) \<and>
      Error (Wrapf err (''file source '' @ s)) = ''file source '' @ s @ '': '' @ Error err) \<and>
   (parseInput W g lg = (Inl err, lg') \<longrightarrow> generateSecret W g lg = (Inl err, lg')) \<and>
   (readInput W fn start = (Inr g, lg) \<and> parseInput W g lg = (Inl err, lg') \<longrightarrow>
      processSopsSecretGenerator W fn start = (Inl err, lg')) \<and>
   (files W s = Inr content \<and> formatForPath s = ''dotenv'' \<and>
    sopsdecrypt_Data W content ''dotenv'' = Inr decrypted \<and>
    scan (SkipOnly decrypted) [] = (tokens, scanErr) \<and> i < length tokens \<and>
    (\<forall>j<i. fst (parseDotEnvLine (tokens ! j) Map.empty) = None) \<and>
    fst (parseDotEnvLine (tokens ! i) Map.empty) = Some err \<longrightarrow>
      failure W (FromEnv s) = Some (Wrapf err (''line '' @ fmt_d i))) \<and>
   (files W s = Inr content \<and> formatForPath s = ''dotenv'' \<and>
    sopsdecrypt_Data W content ''dotenv'' = Inr decrypted \<and>
    scan (SkipOnly decrypted) [] = (tokens, scanErr) \<and>
    (\<forall>j<length tokens. fst (parseDotEnvLine (tokens ! j) Map.empty) = None) \<longrightarrow>
      failure W (FromEnv s) = scanErr)"
proof (intro conjI impI)
  assume a: "EnvSources g = pre @ s # post \<and> (\<forall>x\<in>set pre. failure W (FromEnv x) = None) \<and>
    failure W (FromEnv s) = Some err"
  have r: "concat (map (reads W \<circ> FromEnv) (pre @ [s])) = pre @ [s]"
    by (induction pre) (simp_all add: reads_env)
  show "parseInput W g lg = (Inl (Wrapf err (''env source '' @ s)), lg @ pre @ [s])"
    using a parseEnvSources_stop [of pre W s err post Map.empty lg] r
    by (simp add: parseInput_def)
next
  show "Error (Wrapf err (''env source '' @ s)) = ''env source '' @ s @ '': '' @ Error err"
    by simp
next
  assume a: "(\<forall>x\<in>set (EnvSources g). failure W (FromEnv x) = None) \<and>
    FileSources g = pre @ s # post \<and>
    (\<forall>x\<in>set pre. failure W (FromFile x) = None) \<and> failure W (FromFile s) = Some err"
  have r: "concat (map (reads W \<circ> FromEnv) (EnvSources g)) = EnvSources g"
    by (induction "EnvSources g") (simp_all add: reads_env)
  have e: "parseEnvSources W (EnvSources g) Map.empty lg =
      (None, foldl (++) Map.empty (map (yield W \<circ> FromEnv) (EnvSources g)), lg @ EnvSources g)"
    using a parseEnvSources_all [of "EnvSources g" W Map.empty lg] r by simp
  show "parseInput W g lg =
        (Inl (Wrapf err (''file source '' @ s)),
         lg @ EnvSources g @ concat (map (reads W \<circ> FromFile) (pre @ [s])))"
    using a e
      parseFileSources_stop [of pre W s err post
        "foldl (++) Map.empty (map (yield W \<circ> FromEnv) (EnvSources g))" "lg @ EnvSources g"]
    by (simp add: parseInput_def)
next
  show "Error (Wrapf err (''file source '' @ s)) = ''file source '' @ s @ '': '' @ Error err"
    by simp
next
  assume "parseInput W g lg = (Inl err, lg')"
  then show "generateSecret W g lg = (Inl err, lg')"
    by (simp add: generateSecret_def)
next
  assume "readInput W fn start = (Inr g, lg) \<and> parseInput W g lg = (Inl err, lg')"
  then show "processSopsSecretGenerator W fn start = (Inl err, lg')"
    by (simp add: processSopsSecretGenerator_def generateSecret_def)
next
  assume a: "files W s = Inr content \<and> formatForPath s = ''dotenv'' \<and>
    sopsdecrypt_Data W content ''dotenv'' = Inr decrypted \<and>
    scan (SkipOnly decrypted) [] = (tokens, scanErr) \<and> i < length tokens \<and>
    (\<forall>j<i. fst (parseDotEnvLine (tokens ! j) Map.empty) = None) \<and>
    fst (parseDotEnvLine (tokens ! i) Map.empty) = Some err"
  then have "fst (parseDotEnvContent decrypted Map.empty) = Some (Wrapf err (''line '' @ fmt_d i))"
    using parseDotEnvContent_fail [of decrypted tokens scanErr i err Map.empty] by blast
  then show "failure W (FromEnv s) = Some (Wrapf err (''line '' @ fmt_d i))"
    using a failure_env_dotenv [of W s content decrypted] by simp
next
  assume a: "files W s = Inr content \<and> formatForPath s = ''dotenv'' \<and>
    sopsdecrypt_Data W content ''dotenv'' = Inr decrypted \<and>
    scan (SkipOnly decrypted) [] = (tokens, scanErr) \<and>
    (\<forall>j<length tokens. fst (parseDotEnvLine (tokens ! j) Map.empty) = None)"
  then have "fst (parseDotEnvContent decrypted Map.empty) = scanErr"
    using parseDotEnvContent_pass [of decrypted tokens scanErr Map.empty] by blast
  then show "failure W (FromEnv s) = scanErr"
    using a failure_env_dotenv [of W s content decrypted] by simp
qed

theorem first_failure_aborts_witness:
  "failure exampleWorld (FromEnv ''broken.env'')
     = Some (Wrapf (New ''requires value: novalue'') ''line 1'') \<and>
   EnvSources failingEnvGenerator = [''a.env'', ''broken.env'', ''c.yaml''] \<and>
   parseInput exampleWorld failingEnvGenerator [] =
     (Inl (Wrapf (Wrapf (New ''requires value: novalue'') ''line 1'') ''env source broken.env''),
      [''a.env'', ''broken.env'']) \<and>
   Error (Wrapf (Wrapf (New ''requires value: novalue'') ''line 1'') ''env source broken.env'')
     = ''env source broken.env: line 1: requires value: novalue'' \<and>
   generateSecret exampleWorld failingEnvGenerator [] =
     (Inl (Wrapf (Wrapf (New ''requires value: novalue'') ''line 1'') ''env source broken.env''),
      [''a.env'', ''broken.env'']) \<and>
   processSopsSecretGenerator exampleWorld ''failing.yaml'' [] =
     (Inl (Wrapf (Wrapf (New ''requires value: novalue'') ''line 1'') ''env source broken.env''),
      [''failing.yaml'', ''a.env'', ''broken.env'']) \<and>
   FileSources failingFileGenerator = [''b.bin'', ''a=b=c'', ''FOO=b.bin''] \<and>
   parseInput exampleWorld failingFileGenerator [] =
     (Inl (Wrapf (New (''key names or file paths cannot contain '' @ [CHR 0x27, CHR ''='', CHR 0x27]))
            ''file source a=b=c''),
      [''a.env'', ''b.bin'']) \<and>
   failure exampleWorld (FromEnv ''big.env'') = Some ErrTooLong"
proof -
  have f1: "fmt_d (Suc 0) = ''1''"
    by (simp add: fmt_d.simps digit_def)
  have l0: "\<forall>j<1. fst (parseDotEnvLine ([''OK=1'', ''novalue''] ! j) Map.empty) = None"
    by (simp add: parseDotEnvLine_unfold eval_defs)
  have l1: "fst (parseDotEnvLine ([''OK=1'', ''novalue''] ! 1) Map.empty)
      = Some (New ''requires value: novalue'')"
    by (simp add: parseDotEnvLine_unfold eval_defs)
  have a: "failure exampleWorld (FromEnv ''broken.env'')
     = Some (Wrapf (New ''requires value: novalue'') ''line 1'')"
    using first_failure_aborts [where W = exampleWorld and s = "''broken.env''"
        and content = brokenEnvDoc and decrypted = brokenEnvDoc
        and tokens = "[''OK=1'', ''novalue'']" and scanErr = None and i = 1
        and err = "New ''requires value: novalue''",
        THEN conjunct2, THEN conjunct2, THEN conjunct2, THEN conjunct2, THEN conjunct1]
      files_broken_env fmt_broken_env scan_broken_env l0 l1
    by (simp add: f1)
  have b: "parseInput exampleWorld failingEnvGenerator [] =
     (Inl (Wrapf (Wrapf (New ''requires value: novalue'') ''line 1'') ''env source broken.env''),
      [''a.env'', ''broken.env''])"
    using first_failure_aborts [where W = exampleWorld and g = failingEnvGenerator
        and pre = "[''a.env'']" and s = "''broken.env''" and post = "[''c.yaml'']"
        and err = "Wrapf (New ''requires value: novalue'') ''line 1''" and lg = "[]",
        THEN conjunct1] a resolve_a_env
    by (simp add: failingEnvGenerator_def exampleGenerator_def)
  have c: "generateSecret exampleWorld failingEnvGenerator [] =
     (Inl (Wrapf (Wrapf (New ''requires value: novalue'') ''line 1'') ''env source broken.env''),
      [''a.env'', ''broken.env''])"
    using first_failure_aborts [where W = exampleWorld and g = failingEnvGenerator
        and lg = "[]" and lg' = "[''a.env'', ''broken.env'']"
        and err = "Wrapf (Wrapf (New ''requires value: novalue'') ''line 1'') ''env source broken.env''",
        THEN conjunct2, THEN conjunct2, THEN conjunct1] b
    by simp
  have br: "parseInput exampleWorld failingEnvGenerator [''failing.yaml''] =
     (Inl (Wrapf (Wrapf (New ''requires value: novalue'') ''line 1'') ''env source broken.env''),
      [''failing.yaml'', ''a.env'', ''broken.env''])"
    using first_failure_aborts [where W = exampleWorld and g = failingEnvGenerator
        and pre = "[''a.env'']" and s = "''broken.env''" and post = "[''c.yaml'']"
        and err = "Wrapf (New ''requires value: novalue'') ''line 1''" and lg = "[''failing.yaml'']",
        THEN conjunct1] a resolve_a_env
    by (simp add: failingEnvGenerator_def exampleGenerator_def)
  have d: "processSopsSecretGenerator exampleWorld ''failing.yaml'' [] =
     (Inl (Wrapf (Wrapf (New ''requires value: novalue'') ''line 1'') ''env source broken.env''),
      [''failing.yaml'', ''a.env'', ''broken.env''])"
    using first_failure_aborts [where W = exampleWorld and g = failingEnvGenerator
        and fn = "''failing.yaml''" and start = "[]" and lg = "[''failing.yaml'']"
        and lg' = "[''failing.yaml'', ''a.env'', ''broken.env'']"
        and err = "Wrapf (Wrapf (New ''requires value: novalue'') ''line 1'') ''env source broken.env''",
        THEN conjunct2, THEN conjunct2, THEN conjunct2, THEN conjunct1] readInput_failing br
    by simp
  have e: "parseInput exampleWorld failingFileGenerator [] =
     (Inl (Wrapf (New (''key names or file paths cannot contain '' @ [CHR 0x27, CHR ''='', CHR 0x27]))
            ''file source a=b=c''),
      [''a.env'', ''b.bin''])"
    using first_failure_aborts [where W = exampleWorld and g = failingFileGenerator
        and pre = "[''b.bin'']" and s = "''a=b=c''" and post = "[''FOO=b.bin'']"
        and err = "New (''key names or file paths cannot contain '' @ [CHR 0x27, CHR ''='', CHR 0x27])"
        and lg = "[]", THEN conjunct2, THEN conjunct1]
      failure_abc resolve_a_env resolve_b_bin
    by (simp add: failingFileGenerator_def exampleGenerator_def)
  have lf: "files exampleWorld ''big.env'' = Inr longLineDoc \<and>
      sopsdecrypt_Data exampleWorld longLineDoc ''dotenv'' = Inr longLineDoc"
    using long_not_plain by (simp add: exampleWorld_def)
  have f: "failure exampleWorld (FromEnv ''big.env'') = Some ErrTooLong"
    using first_failure_aborts [where W = exampleWorld and s = "''big.env''"
        and content = longLineDoc and decrypted = longLineDoc
        and tokens = "[]" and scanErr = "Some ErrTooLong",
        THEN conjunct2, THEN conjunct2, THEN conjunct2, THEN conjunct2, THEN conjunct2]
      lf fmt_big_env scan_long
    by simp
  show ?thesis
    unfolding a b c d e f
    by (simp add: failingEnvGenerator_def failingFileGenerator_def exampleGenerator_def)
qed

text \<open>
  Claim C9 as stated gives every dotenv failure a line number. A dotenv document whose
  line has 65536 bytes stops the scanner; \<open>parseDotEnvContent\<close> returns the scanner's
  error unwrapped, so the message of the run names the source and no line.
\<close>

theorem long_line_counterexample:
  "EnvSources longLineGenerator = [''big.env''] \<and>
   formatForPath ''big.env'' = ''dotenv'' \<and>
   fst (parseInput exampleWorld longLineGenerator []) =
     Inl (Wrapf ErrTooLong ''env source big.env'') \<and>
   Error (Wrapf ErrTooLong ''env source big.env'') =
     ''env source big.env: bufio.Scanner: token too long'' \<and>
   \<not> Contains ''env source big.env: bufio.Scanner: token too long'' ''line''"
  by (simp add: longLineGenerator_def exampleGenerator_def fmt_big_env parseInput_def
      resolve_big_env ErrTooLong_def HasPrefix_def)

section \<open>The data map has no order\<close>

text \<open>
  Claim C8, as the code has it. \<open>kvMap\<close> is Go's built-in map, which keeps no order of
  insertion: the map that \<open>parseInput\<close> returns is fixed by which value each key holds.
  When every source resolves and no two different sources yield the same key, listing
  the same env sources and the same file sources in any other order gives the same data
  map and the same Secret, so the serializer is handed the same value and the run gives
  the same output; the order of the entries in the output is the serializer's.
\<close>

theorem data_map_keeps_no_insertion_order:
  assumes "\<forall>d\<in>set (declarationOrder g). failure W d = None"
    and "set envs = set (EnvSources g)" and "set fs = set (FileSources g)"
    and "\<forall>a\<in>set (declarationOrder g). \<forall>b\<in>set (declarationOrder g).
           a \<noteq> b \<longrightarrow> dom (yield W a) \<inter> dom (yield W b) = {}"
  shows "fst (parseInput W (g \<lparr> EnvSources := envs, FileSources := fs \<rparr>) lg) =
           fst (parseInput W g lg) \<and>
         fst (generateSecret W (g \<lparr> EnvSources := envs, FileSources := fs \<rparr>) lg) =
           fst (generateSecret W g lg) \<and>
         \<not> isl (fst (generateSecret W g lg)) \<and>
         (readInput W fn start = (Inr g, lg) \<and>
          readInput W fnB startB = (Inr (g \<lparr> EnvSources := envs, FileSources := fs \<rparr>), lgB) \<longrightarrow>
            fst (processSopsSecretGenerator W fnB startB) =
            fst (processSopsSecretGenerator W fn start))"
proof -
  let ?g' = "g \<lparr> EnvSources := envs, FileSources := fs \<rparr>"
  have s: "set (declarationOrder ?g') = set (declarationOrder g)"
    using assms(2,3) by (simp add: declarationOrder_def)
  have all': "\<forall>d\<in>set (declarationOrder ?g'). failure W d = None"
    using assms(1) s by simp
  have p: "\<And>l. parseInput W g l =
      (Inr (foldl (++) Map.empty (map (yield W) (declarationOrder g))),
       l @ concat (map (reads W) (declarationOrder g)))"
    using parseInput_all [OF assms(1)] .
  have p': "\<And>l. parseInput W ?g' l =
      (Inr (foldl (++) Map.empty (map (yield W) (declarationOrder ?g'))),
       l @ concat (map (reads W) (declarationOrder ?g')))"
    using parseInput_all [OF all'] .
  have eq: "foldl (++) Map.empty (map (yield W) (declarationOrder g)) =
      foldl (++) Map.empty (map (yield W) (declarationOrder ?g'))"
    using foldl_map_add_set_eq [OF s [symmetric] assms(4)] .
  have pi: "\<And>l l'. fst (parseInput W ?g' l') = fst (parseInput W g l)"
    using p p' eq by simp
  have gs: "\<And>l l'. fst (generateSecret W ?g' l') = fst (generateSecret W g l)"
    using generateSecret_of_parseInput [OF pi] by simp
  have ok: "\<not> isl (fst (generateSecret W g lg))"
    using p [of lg] by (simp add: generateSecret_def Let_def)
  have pr: "readInput W fn start = (Inr g, lg) \<and> readInput W fnB startB = (Inr ?g', lgB) \<longrightarrow>
      fst (processSopsSecretGenerator W fnB startB) = fst (processSopsSecretGenerator W fn start)"
  proof
    assume r: "readInput W fn start = (Inr g, lg) \<and> readInput W fnB startB = (Inr ?g', lgB)"
    obtain r1 l1 where g1: "generateSecret W g lg = (r1, l1)"
      by (cases "generateSecret W g lg")
    obtain r2 l2 where g2: "generateSecret W ?g' lgB = (r2, l2)"
      by (cases "generateSecret W ?g' lgB")
    have "r2 = r1" using gs [of lgB lg] g1 g2 by simp
    then show "fst (processSopsSecretGenerator W fnB startB) =
        fst (processSopsSecretGenerator W fn start)"
      using r g1 g2
      by (cases r1) (simp_all add: processSopsSecretGenerator_def split: sum.splits)
  qed
  show ?thesis using pi [of lg lg] gs [of lg lg] ok pr by blast
qed

theorem data_map_keeps_no_insertion_order_witness:
  "fst (parseInput exampleWorld yxGenerator []) = fst (parseInput exampleWorld xyGenerator []) \<and>
   fst (generateSecret exampleWorld yxGenerator []) =
     fst (generateSecret exampleWorld xyGenerator []) \<and>
   \<not> isl (fst (generateSecret exampleWorld xyGenerator [])) \<and>
   fst (processSopsSecretGenerator exampleWorld ''yx.yaml'' []) =
     fst (processSopsSecretGenerator exampleWorld ''xy.yaml'' [])"
proof -
  have all: "\<forall>d\<in>set (declarationOrder xyGenerator). failure exampleWorld d = None"
    using resolve_x resolve_y by (simp add: order_xy)
  have disj: "\<forall>a\<in>set (declarationOrder xyGenerator). \<forall>b\<in>set (declarationOrder xyGenerator).
      a \<noteq> b \<longrightarrow> dom (yield exampleWorld a) \<inter> dom (yield exampleWorld b) = {}"
    using resolve_x resolve_y by (simp add: order_xy)
  have e: "set [] = set (EnvSources xyGenerator)"
    by (simp add: xyGenerator_def)
  have f: "set [''y=c.yaml'', ''x=b.bin''] = set (FileSources xyGenerator)"
    by (auto simp: xyGenerator_def)
  note t = data_map_keeps_no_insertion_order [OF all e f disj, where lg = "[]"]
  note u = data_map_keeps_no_insertion_order [OF all e f disj,
      where lg = "[''xy.yaml'']" and fn = "''xy.yaml''" and start = "[]" and fnB = "''yx.yaml''"
        and startB = "[]" and lgB = "[''yx.yaml'']"]
  have p: "fst (processSopsSecretGenerator exampleWorld ''yx.yaml'' []) =
     fst (processSopsSecretGenerator exampleWorld ''xy.yaml'' [])"
    using u readInput_xy unfolding yx_of_xy by simp
  show ?thesis
    using t p unfolding yx_of_xy by simp
qed

text \<open>
  Claim C8 as stated lets the output show the order in which the keys were stored. Two
  generators list the same two file sources in opposite orders: the files are read, and
  the keys \<open>x\<close> and \<open>y\<close> stored, in opposite orders, and both runs build the same data map
  and the same Secret.
\<close>

theorem insertion_order_counterexample:
  "FileSources xyGenerator = [''x=b.bin'', ''y=c.yaml''] \<and>
   FileSources yxGenerator = [''y=c.yaml'', ''x=b.bin''] \<and>
   snd (parseInput exampleWorld xyGenerator []) = [''b.bin'', ''c.yaml''] \<and>
   snd (parseInput exampleWorld yxGenerator []) = [''c.yaml'', ''b.bin''] \<and>
   fst (parseInput exampleWorld xyGenerator []) = fst (parseInput exampleWorld yxGenerator []) \<and>
   fst (generateSecret exampleWorld xyGenerator []) =
     fst (generateSecret exampleWorld yxGenerator [])"
proof -
  have m: "Map.empty ++ [''x'' \<mapsto> ''AQI=''] ++ [''y'' \<mapsto> ''Rk9POiBiYXo='']
      = Map.empty ++ [''y'' \<mapsto> ''Rk9POiBiYXo=''] ++ [''x'' \<mapsto> ''AQI='']"
    by (auto simp: map_add_def fun_eq_iff)
  have p: "fst (parseInput exampleWorld xyGenerator []) = fst (parseInput exampleWorld yxGenerator [])"
    using m by (simp add: run_xy run_yx)
  have g: "fst (generateSecret exampleWorld xyGenerator []) =
     fst (generateSecret exampleWorld yxGenerator [])"
    by (rule generateSecret_of_parseInput [OF p])
      (simp_all add: xyGenerator_def yxGenerator_def)
  have l: "snd (parseInput exampleWorld xyGenerator []) = [''b.bin'', ''c.yaml'']"
    "snd (parseInput exampleWorld yxGenerator []) = [''c.yaml'', ''b.bin'']"
    by (simp_all add: run_xy run_yx)
  have s: "FileSources xyGenerator = [''x=b.bin'', ''y=c.yaml'']"
    "FileSources yxGenerator = [''y=c.yaml'', ''x=b.bin'']"
    by (simp_all add: xyGenerator_def yxGenerator_def)
  show ?thesis
    using p g l s by blast
qed

end
